theory Spec2Isabelle
  imports Main
begin

text \<open>
  Two parts of the reader carry its logic and are modelled here: the dictionary lookup of
  \<^verbatim>\<open>DictionaryBubble\<close> (\<^verbatim>\<open>fetchOnlineDefinition\<close>, \<^verbatim>\<open>fetchDefinition\<close>)
  and the rendering effect of \<^verbatim>\<open>PDFViewer\<close> (\<^verbatim>\<open>loadPdf\<close>,
  \<^verbatim>\<open>renderPage\<close>, the listeners of the text fragments).

  Exceptions are values: a block that may throw returns a sum, or an optional error next
  to the state it has reached, and every \<^verbatim>\<open>try\<close>/\<^verbatim>\<open>catch\<close> of the source is a
  case distinction. The calls that leave a component (the local dictionary, the HTTP
  request) and the changes to the page container are recorded in order. Geometry and
  pixels, the drawing patch of the dark scheme, font loading, text selection and the
  debounced scroll position are left out.
\<close>

section \<open>JavaScript values used by the lookup resolver\<close>

text \<open>
  Strings are lists of code units. A \<^typ>\<open>char\<close> stands for a UTF-16 code unit below 256
  (the Latin-1 range); code units above that range are not represented. On this range the
  white-space class of \<^verbatim>\<open>String.prototype.trim\<close> and of the regular expression
  \<^verbatim>\<open>\s\<close> is TAB, LF, VT, FF, CR, SPACE and NBSP.
\<close>

definition is_space :: "char \<Rightarrow> bool" where
  "is_space c = (of_char c \<in> {9, 10, 11, 12, 13, 32, 160 :: nat})"

text \<open>The character class \<^verbatim>\<open>[.,!?;:()"]\<close> of \<^verbatim>\<open>fetchOnlineDefinition\<close>.\<close>

definition is_punct :: "char \<Rightarrow> bool" where
  "is_punct c = (c \<in> set ''.,!?;:()'' \<or> c = CHR 0x22)"

text \<open>
  \<^verbatim>\<open>toLowerCase\<close> on one code unit below 256: the letters A-Z and the
  Latin-1 capitals U+00C0..U+00DE (without the multiplication sign U+00D7) move up by 32.
\<close>

definition toLowerChar :: "char \<Rightarrow> char" where
  "toLowerChar c =
     (let n = of_char c :: nat
      in if (65 \<le> n \<and> n \<le> 90) \<or> (192 \<le> n \<and> n \<le> 222 \<and> n \<noteq> 215)
         then char_of (n + 32) else c)"

definition toLowerCase :: "string \<Rightarrow> string" where
  "toLowerCase s = map toLowerChar s"

definition trim :: "string \<Rightarrow> string" where
  "trim s = rev (dropWhile is_space (rev (dropWhile is_space s)))"

text \<open>
  \<^verbatim>\<open>s.split(/\s+/)\<close>: the pieces between the maximal runs of white space. The
  empty string gives one empty piece; leading or trailing white space gives an empty
  first or last piece.
\<close>

function split_ws :: "string \<Rightarrow> string list" where
  "split_ws [] = [[]]"
| "split_ws (c # cs) =
     (if is_space c then [] # split_ws (dropWhile is_space cs)
      else (case split_ws cs of [] \<Rightarrow> [[c]] | p # ps \<Rightarrow> (c # p) # ps))"
  by pat_completeness auto
termination
  by (relation "measure length") (auto simp: length_dropWhile_le less_Suc_eq_le)

text \<open>
  The white-space-delimited tokens of a phrase, as the specification words the rejection
  rule: the maximal runs of characters that are not white space.
\<close>

function ws_tokens :: "string \<Rightarrow> string list" where
  "ws_tokens s =
     (case dropWhile is_space s of
        [] \<Rightarrow> []
      | c # cs \<Rightarrow> (c # takeWhile (\<lambda>x. \<not> is_space x) cs)
                  # ws_tokens (dropWhile (\<lambda>x. \<not> is_space x) cs))"
  by pat_completeness auto
termination
proof (relation "measure length", simp)
  fix s :: string and c cs
  assume d: "dropWhile is_space s = c # cs"
  have "length (dropWhile (\<lambda>x. \<not> is_space x) cs) \<le> length cs"
    by (rule length_dropWhile_le)
  moreover have "length (c # cs) \<le> length s"
    using length_dropWhile_le [of is_space s] d by simp
  ultimately show "(dropWhile (\<lambda>x. \<not> is_space x) cs, s) \<in> measure length"
    by simp
qed

declare ws_tokens.simps [simp del]

text \<open>
  Values produced by \<^verbatim>\<open>response.json()\<close>. A number is kept as its JavaScript
  rendering \<^verbatim>\<open>String(n)\<close> (for instance \<open>''1.5''\<close>): the resolver only tests
  numbers for truthiness and interpolates them into a template string. An object is the
  list of its own properties, looked up by \<^const>\<open>map_of\<close>.
\<close>

datatype json =
    JNull
  | JBool bool
  | JNum string
  | JStr string
  | JArr "json list"
  | JObj "(string \<times> json) list"

datatype error =
    TypeError
  | FetchFailed
  | JsonFailed
  | ImportFailed
  | InvokeFailed
  | GetDocumentFailed
  | GetPageFailed
  | RenderFailed
  | GetTextContentFailed
  | TextLayerFailed

text \<open>
  Reading one of the properties \<^verbatim>\<open>meanings\<close>, \<^verbatim>\<open>definitions\<close>,
  \<^verbatim>\<open>definition\<close>, \<^verbatim>\<open>partOfSpeech\<close>: on \<^verbatim>\<open>null\<close> the read throws a
  TypeError, on an object it gives the own property or \<^verbatim>\<open>undefined\<close> (\<open>None\<close>),
  on a string, number, boolean or array it gives \<^verbatim>\<open>undefined\<close>, none of the four
  names being built in.
\<close>

fun getProp :: "json \<Rightarrow> string \<Rightarrow> error + json option" where
  "getProp JNull k = Inl TypeError"
| "getProp (JObj kvs) k = Inr (map_of kvs k)"
| "getProp (JBool b) k = Inr None"
| "getProp (JNum r) k = Inr None"
| "getProp (JStr s) k = Inr None"
| "getProp (JArr xs) k = Inr None"

fun truthy :: "json option \<Rightarrow> bool" where
  "truthy None = False"
| "truthy (Some JNull) = False"
| "truthy (Some (JBool b)) = b"
| "truthy (Some (JNum r)) = (r \<noteq> ''0'')"
| "truthy (Some (JStr s)) = (s \<noteq> [])"
| "truthy (Some (JArr xs)) = True"
| "truthy (Some (JObj kvs)) = True"

text \<open>
  The string conversion of a template literal. An array is joined with commas,
  \<^verbatim>\<open>null\<close> elements giving the empty string; a plain object gives
  \<^verbatim>\<open>[object Object]\<close>, unless an own property \<^verbatim>\<open>toString\<close> (never callable in
  parsed JSON) hides the inherited method, in which case the conversion throws.
\<close>

fun toString :: "json \<Rightarrow> error + string"
  and joinElems :: "json list \<Rightarrow> error + string" where
  "toString JNull = Inr ''null''"
| "toString (JBool b) = Inr (if b then ''true'' else ''false'')"
| "toString (JNum r) = Inr r"
| "toString (JStr s) = Inr s"
| "toString (JArr xs) = joinElems xs"
| "toString (JObj kvs) =
     (if map_of kvs ''toString'' = None then Inr ''[object Object]'' else Inl TypeError)"
| "joinElems [] = Inr []"
| "joinElems (x # xs) =
     (case (case x of JNull \<Rightarrow> Inr [] | _ \<Rightarrow> toString x) of
        Inl e \<Rightarrow> Inl e
      | Inr s \<Rightarrow>
          (case joinElems xs of
             Inl e \<Rightarrow> Inl e
           | Inr r \<Rightarrow> Inr (if xs = [] then s else s @ '','' @ r)))"

section \<open>The lookup resolver (DictionaryBubble)\<close>

subsection \<open>fetchOnlineDefinition\<close>

text \<open>
  \<^verbatim>\<open>term.trim().replace(/[.,!?;:()"]/g, '').toLowerCase()\<close>
\<close>

definition cleanTerm :: "string \<Rightarrow> string" where
  "cleanTerm term = toLowerCase (filter (\<lambda>c. \<not> is_punct c) (trim term))"

text \<open>
  \<^verbatim>\<open>cleanTerm.length < 2 || cleanTerm.split(/\s+/).length > 3\<close>
\<close>

definition rejected :: "string \<Rightarrow> bool" where
  "rejected c = (length c < 2 \<or> length (split_ws c) > 3)"

text \<open>
  \<^verbatim>\<open>xs.forEach(f)\<close> where \<open>f\<close> pushes strings onto \<^verbatim>\<open>defs\<close> or throws: the
  pushes in order, or the first exception (which leaves the loop and, in
  \<^verbatim>\<open>fetchOnlineDefinition\<close>, discards \<^verbatim>\<open>defs\<close>).
\<close>

fun forEach :: "('a \<Rightarrow> error + string list) \<Rightarrow> 'a list \<Rightarrow> error + string list" where
  "forEach f [] = Inr []"
| "forEach f (x # xs) =
     (case f x of
        Inl e \<Rightarrow> Inl e
      | Inr ys \<Rightarrow> (case forEach f xs of Inl e \<Rightarrow> Inl e | Inr zs \<Rightarrow> Inr (ys @ zs)))"

text \<open>\<^verbatim>\<open>meaning.partOfSpeech || 'noun'\<close>, converted by the template literal.\<close>

definition posLabel :: "json \<Rightarrow> error + string" where
  "posLabel meaning =
     (case getProp meaning ''partOfSpeech'' of
        Inl e \<Rightarrow> Inl e
      | Inr p \<Rightarrow> (case p of None \<Rightarrow> Inr ''noun''
                  | Some v \<Rightarrow> if truthy p then toString v else Inr ''noun''))"

text \<open>
  The innermost callback:
  \<^verbatim>\<open>if (def.definition) defs.push(`(${meaning.partOfSpeech || 'noun'}) ${def.definition}`)\<close>
\<close>

definition defLine :: "json \<Rightarrow> json \<Rightarrow> error + string list" where
  "defLine meaning d =
     (case getProp d ''definition'' of
        Inl e \<Rightarrow> Inl e
      | Inr dv \<Rightarrow>
          (case dv of
             None \<Rightarrow> Inr []
           | Some v \<Rightarrow>
               if truthy dv then
                 (case posLabel meaning of
                    Inl e \<Rightarrow> Inl e
                  | Inr p \<Rightarrow>
                      (case toString v of
                         Inl e \<Rightarrow> Inl e
                       | Inr t \<Rightarrow> Inr [''('' @ p @ '') '' @ t]))
               else Inr []))"

text \<open>
  \<^verbatim>\<open>meaning.definitions?.slice(0, 2).forEach(...)\<close>: nothing when the property is
  \<^verbatim>\<open>undefined\<close> or \<^verbatim>\<open>null\<close>; on an array the first two elements; any other
  value has no \<^verbatim>\<open>slice(..).forEach\<close> to call, which throws.
\<close>

definition meaningDefs :: "json \<Rightarrow> error + string list" where
  "meaningDefs meaning =
     (case getProp meaning ''definitions'' of
        Inl e \<Rightarrow> Inl e
      | Inr None \<Rightarrow> Inr []
      | Inr (Some JNull) \<Rightarrow> Inr []
      | Inr (Some (JArr ds)) \<Rightarrow> forEach (defLine meaning) (take 2 ds)
      | Inr (Some _) \<Rightarrow> Inl TypeError)"

text \<open>\<^verbatim>\<open>entry.meanings?.forEach(...)\<close>\<close>

definition entryDefs :: "json \<Rightarrow> error + string list" where
  "entryDefs entry =
     (case getProp entry ''meanings'' of
        Inl e \<Rightarrow> Inl e
      | Inr None \<Rightarrow> Inr []
      | Inr (Some JNull) \<Rightarrow> Inr []
      | Inr (Some (JArr ms)) \<Rightarrow> forEach meaningDefs ms
      | Inr (Some _) \<Rightarrow> Inl TypeError)"

text \<open>\<^verbatim>\<open>if (Array.isArray(data)) data.forEach(...)\<close>, giving \<^verbatim>\<open>defs\<close>.\<close>

definition parseDefs :: "json \<Rightarrow> error + string list" where
  "parseDefs data = (case data of JArr entries \<Rightarrow> forEach entryDefs entries | _ \<Rightarrow> Inr [])"

text \<open>
  The outside world of the resolver. \<open>importCore\<close> is the dynamic import of
  \<^verbatim>\<open>@tauri-apps/api/core\<close>: it fails, or tells whether \<^verbatim>\<open>invoke\<close> is a
  function. \<open>invoke\<close> is the command \<^verbatim>\<open>search_dictionary\<close>, whose result may be
  \<^verbatim>\<open>null\<close> (\<open>None\<close>). \<open>fetch\<close> is the HTTP GET of the dictionary API, keyed by
  the term that is URI-encoded into the address.
\<close>

record response =
  ok :: bool
  body :: "error + json"

record env =
  isTauri :: bool
  importCore :: "error + bool"
  invoke :: "string \<Rightarrow> error + string list option"
  fetch :: "string \<Rightarrow> error + response"

text \<open>The calls that leave the component, in the order they are made.\<close>

datatype call = Invoke string | Fetch string

fun localCalls :: "call list \<Rightarrow> string list" where
  "localCalls [] = []"
| "localCalls (Invoke w # cs) = w # localCalls cs"
| "localCalls (Fetch t # cs) = localCalls cs"

fun remoteCalls :: "call list \<Rightarrow> string list" where
  "remoteCalls [] = []"
| "remoteCalls (Invoke w # cs) = remoteCalls cs"
| "remoteCalls (Fetch t # cs) = t # remoteCalls cs"

text \<open>The body of the \<^verbatim>\<open>try\<close> block of \<^verbatim>\<open>fetchOnlineDefinition\<close>.\<close>

definition fetchOnlineDefinition_try :: "env \<Rightarrow> string \<Rightarrow> (error + string list) \<times> call list" where
  "fetchOnlineDefinition_try e term =
     (let c = cleanTerm term in
      if rejected c then (Inr [], [])
      else
        (case fetch e c of
           Inl x \<Rightarrow> (Inl x, [Fetch c])
         | Inr r \<Rightarrow>
             if \<not> ok r then (Inr [], [Fetch c])
             else
               (case body r of
                  Inl x \<Rightarrow> (Inl x, [Fetch c])
                | Inr data \<Rightarrow>
                    (case parseDefs data of
                       Inl x \<Rightarrow> (Inl x, [Fetch c])
                     | Inr defs \<Rightarrow> (Inr (take 3 defs), [Fetch c])))))"

text \<open>\<^verbatim>\<open>try { ... } catch { return []; }\<close>\<close>

definition fetchOnlineDefinition :: "env \<Rightarrow> string \<Rightarrow> (error + string list) \<times> call list" where
  "fetchOnlineDefinition e term =
     (case fetchOnlineDefinition_try e term of
        (Inl x, tr) \<Rightarrow> (Inr [], tr)
      | (Inr defs, tr) \<Rightarrow> (Inr defs, tr))"

subsection \<open>fetchDefinition\<close>

datatype source_tag = Local | Online

record bubble =
  definitions :: "string list"
  source :: "source_tag option"
  loading :: bool

text \<open>
  The body of the first \<^verbatim>\<open>try\<close> block: \<open>Some results\<close> when the local dictionary
  answered with a non-empty list (the branch that sets \<^verbatim>\<open>foundLocal\<close>).
\<close>

definition localLookup_try :: "env \<Rightarrow> string \<Rightarrow> (error + string list option) \<times> call list" where
  "localLookup_try e word =
     (case importCore e of
        Inl x \<Rightarrow> (Inl x, [])
      | Inr isFunction \<Rightarrow>
          if \<not> isFunction then (Inr None, [])
          else
            (case invoke e (trim word) of
               Inl x \<Rightarrow> (Inl x, [Invoke (trim word)])
             | Inr results \<Rightarrow>
                 (case results of
                    None \<Rightarrow> (Inr None, [Invoke (trim word)])
                  | Some rs \<Rightarrow>
                      if length rs > 0 then (Inr (Some rs), [Invoke (trim word)])
                      else (Inr None, [Invoke (trim word)]))))"

text \<open>
  \<^verbatim>\<open>fetchDefinition\<close>, which the effect runs for a non-empty \<^verbatim>\<open>word\<close>. The
  result is the state of the bubble once \<^verbatim>\<open>setLoading(false)\<close> has run, or the
  exception that left the function.
\<close>

definition fetchDefinition :: "env \<Rightarrow> string \<Rightarrow> (error + bubble) \<times> call list" where
  "fetchDefinition e word =
     (let b0 = \<lparr>definitions = [], source = None, loading = True\<rparr>;
          (b1, foundLocal, tr1) =
            (if isTauri e then
               (case localLookup_try e word of
                  (Inl x, tr) \<Rightarrow> (b0, False, tr)
                | (Inr None, tr) \<Rightarrow> (b0, False, tr)
                | (Inr (Some rs), tr) \<Rightarrow>
                    (b0\<lparr>definitions := rs, source := Some Local\<rparr>, True, tr))
             else (b0, False, []))
      in if \<not> foundLocal then
           (case fetchOnlineDefinition e word of
              (Inl x, tr2) \<Rightarrow> (Inr (b1\<lparr>loading := False\<rparr>), tr1 @ tr2)
            | (Inr onlineResults, tr2) \<Rightarrow>
                if length onlineResults > 0
                then (Inr (b1\<lparr>definitions := onlineResults, source := Some Online,
                               loading := False\<rparr>), tr1 @ tr2)
                else (Inr (b1\<lparr>loading := False\<rparr>), tr1 @ tr2))
         else (Inr (b1\<lparr>loading := False\<rparr>), tr1))"

subsection \<open>Helpers for stating the properties\<close>

text \<open>The meanings an entry hands to the inner loop: the elements of its
  \<^verbatim>\<open>meanings\<close> array, none when the property is missing.\<close>

definition meaningsOf :: "json \<Rightarrow> json list" where
  "meaningsOf entry =
     (case getProp entry ''meanings'' of Inr (Some (JArr ms)) \<Rightarrow> ms | _ \<Rightarrow> [])"

text \<open>
  Two concrete runtime contexts: a browser, with no local dictionary, where every request
  is answered by \<open>data\<close>; and the desktop application, whose local dictionary answers
  every word with \<open>results\<close>.
\<close>

definition web_env :: "json \<Rightarrow> env" where
  "web_env data =
     \<lparr>isTauri = False, importCore = Inl ImportFailed, invoke = (\<lambda>w. Inl InvokeFailed),
      fetch = (\<lambda>t. Inr \<lparr>ok = True, body = Inr data\<rparr>)\<rparr>"

definition desktop_env :: "string list \<Rightarrow> json \<Rightarrow> env" where
  "desktop_env results data =
     \<lparr>isTauri = True, importCore = Inr True, invoke = (\<lambda>w. Inr (Some results)),
      fetch = (\<lambda>t. Inr \<lparr>ok = True, body = Inr data\<rparr>)\<rparr>"

text \<open>A desktop context in which both the local call and the request fail.\<close>

definition failing_env :: env where
  "failing_env =
     \<lparr>isTauri = True, importCore = Inr True, invoke = (\<lambda>w. Inl InvokeFailed),
      fetch = (\<lambda>t. Inl FetchFailed)\<rparr>"

text \<open>A response with one entry and two meanings, a verb and a noun.\<close>

definition go_response :: json where
  "go_response =
     JArr [JObj [(''word'', JStr ''go''),
                 (''meanings'',
                  JArr [JObj [(''partOfSpeech'', JStr ''verb''),
                              (''definitions'',
                               JArr [JObj [(''definition'', JStr ''to move'')],
                                     JObj [(''definition'', JStr ''to leave'')],
                                     JObj [(''definition'', JStr ''to work'')]])],
                        JObj [(''partOfSpeech'', JStr ''noun''),
                              (''definitions'',
                               JArr [JObj [(''definition'', JStr ''a turn'')],
                                     JObj [(''definition'', JStr ''an attempt'')]])]])]]"

section \<open>The document viewer (PDFViewer)\<close>

subsection \<open>Fragment identifiers\<close>

text \<open>The decimal rendering of a page number or an index inside a template literal.\<close>

fun showNat :: "nat \<Rightarrow> string" where
  "showNat n =
     (if n < 10 then [char_of (48 + n)] else showNat (n div 10) @ [char_of (48 + n mod 10)])"

declare showNat.simps [simp del]

text \<open>\<^verbatim>\<open>const spanId = `p${pageNum}-s${idx}`\<close>\<close>

definition spanId :: "nat \<Rightarrow> nat \<Rightarrow> string" where
  "spanId pageNum idx = ''p'' @ showNat pageNum @ ''-s'' @ showNat idx"

subsection \<open>The tab store\<close>

text \<open>
  A tab of the store, as far as the viewer reads it: its identifier, the persisted edits
  (a JavaScript object keyed by fragment identifier, possibly \<^verbatim>\<open>undefined\<close>) and
  whether a scroll position has been saved.
\<close>

record tab =
  tab_id :: string
  edits :: "(string \<rightharpoonup> string) option"
  scrollPosition :: "int option"

text \<open>\<^verbatim>\<open>tabs.find(t => t.id === tabId)\<close>\<close>

definition currentTab :: "tab list \<Rightarrow> string \<Rightarrow> tab option" where
  "currentTab tabs tabId = find (\<lambda>t. tab_id t = tabId) tabs"

text \<open>
  Modelled from the spec: the action \<^verbatim>\<open>saveEdit(tabId, spanId, text)\<close> of the store
  \<^verbatim>\<open>useTabStore\<close>, which is not among the sources. On deactivation with non-empty
  text "the store persists \<open>{fragmentId: text}\<close> into \<open>Document.edits\<close>", with "one
  edit per fragment (later edits overwrite)".
\<close>

definition saveEdit :: "tab list \<Rightarrow> string \<Rightarrow> string \<Rightarrow> string \<Rightarrow> tab list" where
  "saveEdit tabs tabId sid txt =
     map (\<lambda>t. if tab_id t = tabId
              then t\<lparr>edits := Some ((case edits t of None \<Rightarrow> Map.empty | Some m \<Rightarrow> m)(sid \<mapsto> txt))\<rparr>
              else t) tabs"

subsection \<open>Fragments of the text layer\<close>

text \<open>
  What the listeners of a fragment have captured: the tab, the fragment identifier and
  the colour scheme of the render that attached them.
\<close>

record closure =
  cl_tabId :: string
  cl_spanId :: string
  cl_isDarkMode :: bool

text \<open>
  A \<^verbatim>\<open>span\<close> of the text layer: its text, the inline style properties the viewer
  writes (the shorthand \<^verbatim>\<open>background\<close> and \<^verbatim>\<open>backgroundColor\<close> both write
  \<open>backgroundColor\<close>), the identifier computed for it by the last render, and the
  listeners attached in edit mode.
\<close>

record span =
  textContent :: string
  contentEditable :: bool
  color :: string
  backgroundColor :: string
  borderBottom :: string
  textDecoration :: string
  outline :: string
  outlineOffset :: string
  minWidth :: string
  cursor :: string
  fontFamily :: string
  frag_id :: string
  listeners :: "closure option"

text \<open>
  The settings of one run of the effect. \<open>mapPDFFontToCSS\<close> belongs to the font
  utilities, which are not among the sources, and is taken as given.
\<close>

record cfg =
  tabId :: string
  isEditMode :: bool
  isDarkMode :: bool
  mapPDFFontToCSS :: "string \<Rightarrow> string"

definition dashed :: string where
  "dashed = ''1px dashed var(--accent-color)''"

definition textColor :: "bool \<Rightarrow> string" where
  "textColor dark = (if dark then ''#e0e6ed'' else ''#1e293b'')"

text \<open>
  \<^verbatim>\<open>if (tab?.edits && tab.edits[spanId]) { span.textContent = ...; borderBottom = ... }\<close>:
  the stored text is put back when it is a non-empty string.
\<close>

definition restoreEdit :: "tab option \<Rightarrow> string \<Rightarrow> span \<Rightarrow> span" where
  "restoreEdit t sid s =
     (case t of
        None \<Rightarrow> s
      | Some tb \<Rightarrow>
          (case edits tb of
             None \<Rightarrow> s
           | Some m \<Rightarrow>
               (case m sid of
                  None \<Rightarrow> s
                | Some txt \<Rightarrow>
                    if txt \<noteq> [] then s\<lparr>textContent := txt, borderBottom := dashed\<rparr> else s)))"

text \<open>
  \<^verbatim>\<open>const item = textContent.items[idx]; if (item && item.fontName) ...\<close>, the items
  being given by their font names.
\<close>

definition applyFont :: "cfg \<Rightarrow> string option list \<Rightarrow> nat \<Rightarrow> span \<Rightarrow> span" where
  "applyFont c items idx s =
     (if idx < length items then
        (case items ! idx of
           None \<Rightarrow> s
         | Some fontName \<Rightarrow>
             if fontName \<noteq> [] then s\<lparr>fontFamily := mapPDFFontToCSS c fontName\<rparr> else s)
      else s)"

text \<open>The body of \<^verbatim>\<open>spans.forEach((span, idx) => ...)\<close>.\<close>

definition processSpan :: "cfg \<Rightarrow> tab option \<Rightarrow> nat \<Rightarrow> string option list \<Rightarrow> nat \<Rightarrow> span \<Rightarrow> span" where
  "processSpan c t pageNum items idx s =
     (let sid = spanId pageNum idx;
          s1 = restoreEdit t sid (s\<lparr>frag_id := sid\<rparr>);
          s2 = applyFont c items idx s1
      in if isEditMode c
         then s2\<lparr>cursor := ''text'',
                 listeners := Some \<lparr>cl_tabId = tabId c, cl_spanId = sid,
                                    cl_isDarkMode = isDarkMode c\<rparr>\<rparr>
         else s2\<lparr>cursor := ''text'', contentEditable := False\<rparr>)"

definition processSpans :: "cfg \<Rightarrow> tab option \<Rightarrow> nat \<Rightarrow> string option list \<Rightarrow> span list \<Rightarrow> span list" where
  "processSpans c t pageNum items layer =
     map (\<lambda>(idx, s). processSpan c t pageNum items idx s) (zip [0..<length layer] layer)"

subsection \<open>The listeners\<close>

text \<open>The \<^verbatim>\<open>click\<close> listener.\<close>

definition click :: "span \<Rightarrow> span" where
  "click s =
     (case listeners s of
        None \<Rightarrow> s
      | Some cl \<Rightarrow>
          s\<lparr>contentEditable := True, backgroundColor := ''rgba(255, 255, 255, 0.1)'',
            outline := ''2px dashed var(--accent-color)'', outlineOffset := ''2px'',
            color := textColor (cl_isDarkMode cl), minWidth := ''5px''\<rparr>)"

text \<open>The user replaces the text of a fragment, which takes effect while it is editable.\<close>

definition typeText :: "string \<Rightarrow> span \<Rightarrow> span" where
  "typeText txt s = (if contentEditable s then s\<lparr>textContent := txt\<rparr> else s)"

text \<open>The \<^verbatim>\<open>blur\<close> listener, on the fragment and the store.\<close>

definition blur :: "span \<Rightarrow> tab list \<Rightarrow> span \<times> tab list" where
  "blur s tabs =
     (case listeners s of
        None \<Rightarrow> (s, tabs)
      | Some cl \<Rightarrow>
          (let s1 = s\<lparr>contentEditable := False, outline := ''none''\<rparr>
           in if textContent s \<noteq> [] \<and> trim (textContent s) \<noteq> []
              then (s1\<lparr>color := textColor (cl_isDarkMode cl),
                       backgroundColor := (if cl_isDarkMode cl then ''#000000'' else ''#ffffff''),
                       textDecoration := ''none'', borderBottom := dashed\<rparr>,
                    saveEdit tabs (cl_tabId cl) (cl_spanId cl) (textContent s))
              else (s1\<lparr>color := ''transparent'', backgroundColor := ''transparent''\<rparr>, tabs)))"

subsection \<open>Rendering\<close>

text \<open>
  What pdf.js delivers for one page: whether \<^verbatim>\<open>pdf.getPage\<close>, the 2D context,
  \<^verbatim>\<open>page.render\<close>, \<^verbatim>\<open>page.getTextContent\<close> and \<^verbatim>\<open>textLayer.render\<close>
  succeed, the font names of the text items, and the spans the text layer creates, in
  its order. Geometry (viewport, canvas size, scale) is left out.
\<close>

record page_src =
  getPage_ok :: bool
  context_ok :: bool
  render_ok :: bool
  getTextContent_ok :: bool
  textLayer_ok :: bool
  items :: "string option list"
  layer :: "span list"

text \<open>The document: whether it loads, whether the library has \<^verbatim>\<open>TextLayer\<close>, its pages.\<close>

record pdf_src =
  getDocument_ok :: bool
  hasTextLayer :: bool
  pages :: "page_src list"

text \<open>A page container appended to the viewer.\<close>

record page_node =
  page_no :: nat
  editClass :: bool
  rasterized :: bool
  spans :: "span list"

datatype event =
    Cleared
  | Appended nat
  | Teardown
  | ErrorLogged error
  | Warned error
  | ScrollRestore

text \<open>
  The state one run of the effect works on: its flag \<^verbatim>\<open>active\<close>, the children of
  \<^verbatim>\<open>containerRef.current\<close> (\<open>None\<close> when the reference is null), and what
  happened, in order.
\<close>

record viewer =
  active :: bool
  containerRef :: "page_node list option"
  events :: "event list"

text \<open>
  The cleanup of the effect runs when a dependency changes (the container stays) or when
  the component unmounts (the reference becomes null).
\<close>

datatype cleanup = Rerun | Unmount

definition runCleanup :: "cleanup \<Rightarrow> viewer \<Rightarrow> viewer" where
  "runCleanup k v =
     v\<lparr>active := False,
       containerRef := (case k of Rerun \<Rightarrow> containerRef v | Unmount \<Rightarrow> None),
       events := events v @ [Teardown]\<rparr>"

text \<open>
  When the cleanup runs during this run of \<^verbatim>\<open>loadPdf\<close>: \<open>Some (0, k)\<close> while the
  document is loading, \<open>Some (i, k)\<close> while page \<open>i\<close> is awaited from
  \<^verbatim>\<open>pdf.getPage\<close>.
\<close>

type_synonym schedule = "(nat \<times> cleanup) option"

definition cleanupAt :: "schedule \<Rightarrow> nat \<Rightarrow> viewer \<Rightarrow> viewer" where
  "cleanupAt sch i v =
     (case sch of None \<Rightarrow> v | Some (j, k) \<Rightarrow> if j = i then runCleanup k v else v)"

text \<open>\<^verbatim>\<open>containerRef.current?.appendChild(pageContainer)\<close>\<close>

definition appendChild :: "page_node \<Rightarrow> viewer \<Rightarrow> viewer" where
  "appendChild n v =
     (case containerRef v of
        None \<Rightarrow> v
      | Some ps \<Rightarrow> v\<lparr>containerRef := Some (ps @ [n]), events := events v @ [Appended (page_no n)]\<rparr>)"

text \<open>A later change to the page container that has just been appended.\<close>

definition updatePage :: "(page_node \<Rightarrow> page_node) \<Rightarrow> viewer \<Rightarrow> viewer" where
  "updatePage f v =
     (case containerRef v of
        None \<Rightarrow> v
      | Some ps \<Rightarrow> if ps = [] then v else v\<lparr>containerRef := Some (butlast ps @ [f (last ps)])\<rparr>)"

text \<open>
  \<^verbatim>\<open>renderPage\<close>: the exception that leaves it, if any, and the viewer at that point.
  Only the text layer is guarded by a \<^verbatim>\<open>try\<close> of its own.
\<close>

definition renderPage :: "cfg \<Rightarrow> tab option \<Rightarrow> pdf_src \<Rightarrow> nat \<Rightarrow> page_src \<Rightarrow> viewer \<Rightarrow> error option \<times> viewer" where
  "renderPage c t pdf pageNum src v =
     (if \<not> getPage_ok src then (Some GetPageFailed, v)
      else if \<not> context_ok src then (None, v)
      else
        (let v1 = appendChild \<lparr>page_no = pageNum, editClass = isEditMode c,
                                rasterized = False, spans = []\<rparr> v
         in if \<not> render_ok src then (Some RenderFailed, v1)
            else
              (let v2 = updatePage (\<lambda>n. n\<lparr>rasterized := True\<rparr>) v1
               in if \<not> getTextContent_ok src then (Some GetTextContentFailed, v2)
                  else if \<not> hasTextLayer pdf then (None, v2)
                  else if \<not> textLayer_ok src
                  then (None, v2\<lparr>events := events v2 @ [Warned TextLayerFailed]\<rparr>)
                  else (None,
                        updatePage
                          (\<lambda>n. n\<lparr>spans := processSpans c t pageNum (items src) (layer src)\<rparr>)
                          v2))))"

text \<open>
  \<^verbatim>\<open>for (let i = 1; i <= pdf.numPages; i++) await renderPage(pdf, i)\<close>, from page
  \<open>i\<close> on.
\<close>

fun renderPages :: "cfg \<Rightarrow> tab option \<Rightarrow> pdf_src \<Rightarrow> schedule \<Rightarrow> nat \<Rightarrow> page_src list \<Rightarrow> viewer \<Rightarrow> error option \<times> viewer" where
  "renderPages c t pdf sch i [] v = (None, v)"
| "renderPages c t pdf sch i (src # rest) v =
     (case renderPage c t pdf i src (cleanupAt sch i v) of
        (Some e, v1) \<Rightarrow> (Some e, v1)
      | (None, v1) \<Rightarrow> renderPages c t pdf sch (i + 1) rest v1)"

text \<open>The body of the \<^verbatim>\<open>try\<close> block of \<^verbatim>\<open>loadPdf\<close>.\<close>

definition loadPdf_try :: "cfg \<Rightarrow> tab list \<Rightarrow> pdf_src \<Rightarrow> schedule \<Rightarrow> viewer \<Rightarrow> error option \<times> viewer" where
  "loadPdf_try c tabs pdf sch v =
     (let v0 = cleanupAt sch 0 v
      in if \<not> getDocument_ok pdf then (Some GetDocumentFailed, v0)
         else if \<not> active v0 then (None, v0)
         else
           (case containerRef v0 of
              None \<Rightarrow> (None, v0)
            | Some old \<Rightarrow>
                (case renderPages c (currentTab tabs (tabId c)) pdf sch 1 (pages pdf)
                        (v0\<lparr>containerRef := Some [], events := events v0 @ [Cleared]\<rparr>) of
                   (Some e, v1) \<Rightarrow> (Some e, v1)
                 | (None, v1) \<Rightarrow>
                     (case currentTab tabs (tabId c) of
                        None \<Rightarrow> (None, v1)
                      | Some tb \<Rightarrow>
                          if scrollPosition tb \<noteq> None
                          then (None, v1\<lparr>events := events v1 @ [ScrollRestore]\<rparr>)
                          else (None, v1)))))"

text \<open>\<^verbatim>\<open>try { ... } catch (error) { console.error('Error loading PDF:', error); }\<close>\<close>

definition loadPdf :: "cfg \<Rightarrow> tab list \<Rightarrow> pdf_src \<Rightarrow> schedule \<Rightarrow> viewer \<Rightarrow> viewer" where
  "loadPdf c tabs pdf sch v =
     (case loadPdf_try c tabs pdf sch v of
        (Some e, v1) \<Rightarrow> v1\<lparr>events := events v1 @ [ErrorLogged e]\<rparr>
      | (None, v1) \<Rightarrow> v1)"

text \<open>The viewer when the effect starts: the flag set, the container mounted.\<close>

definition mounted :: "page_node list \<Rightarrow> viewer" where
  "mounted old = \<lparr>active = True, containerRef = Some old, events = []\<rparr>"

subsection \<open>Helpers for stating the properties of the viewer\<close>

text \<open>The persisted edit of a fragment of a tab, if there is one.\<close>

definition editOf :: "tab list \<Rightarrow> string \<Rightarrow> string \<Rightarrow> string option" where
  "editOf tabs tid sid =
     (case currentTab tabs tid of
        None \<Rightarrow> None
      | Some tb \<Rightarrow> (case edits tb of None \<Rightarrow> None | Some m \<Rightarrow> m sid))"

text \<open>
  Concrete inputs: a span as the text layer creates it, a page on which every step
  succeeds, two runs of the effect (edit mode, and reading mode with the dark scheme), a
  store without edits and one with an edit of the first fragment of page 1, and small
  documents.
\<close>

definition pdf_span :: "string \<Rightarrow> span" where
  "pdf_span txt =
     \<lparr>textContent = txt, contentEditable = False, color = [], backgroundColor = [],
      borderBottom = [], textDecoration = [], outline = [], outlineOffset = [], minWidth = [],
      cursor = [], fontFamily = [], frag_id = [], listeners = None\<rparr>"

definition good_page :: "string list \<Rightarrow> page_src" where
  "good_page texts =
     \<lparr>getPage_ok = True, context_ok = True, render_ok = True, getTextContent_ok = True,
      textLayer_ok = True, items = [], layer = map pdf_span texts\<rparr>"

definition edit_cfg :: cfg where
  "edit_cfg = \<lparr>tabId = ''t1'', isEditMode = True, isDarkMode = False, mapPDFFontToCSS = (\<lambda>f. f)\<rparr>"

definition read_cfg :: cfg where
  "read_cfg = \<lparr>tabId = ''t1'', isEditMode = False, isDarkMode = True, mapPDFFontToCSS = (\<lambda>f. f)\<rparr>"

definition fresh_tabs :: "tab list" where
  "fresh_tabs = [\<lparr>tab_id = ''t1'', edits = None, scrollPosition = None\<rparr>]"

definition edited_tabs :: "tab list" where
  "edited_tabs = [\<lparr>tab_id = ''t1'', edits = Some [''p1-s0'' \<mapsto> ''Howdy''], scrollPosition = None\<rparr>]"

definition two_pages :: pdf_src where
  "two_pages = \<lparr>getDocument_ok = True, hasTextLayer = True,
                pages = [good_page [''Hello'', ''world''], good_page [''Bye'']]\<rparr>"

definition broken_first :: pdf_src where
  "broken_first = \<lparr>getDocument_ok = True, hasTextLayer = True,
                pages = [(good_page [''Hello''])\<lparr>getPage_ok := False\<rparr>, good_page [''Bye'']]\<rparr>"

text \<open>A document of three pages whose second page cannot be rasterised.\<close>

definition broken_render :: pdf_src where
  "broken_render = \<lparr>getDocument_ok = True, hasTextLayer = True,
      pages = [good_page [''Hello''], (good_page [''Mid''])\<lparr>render_ok := False\<rparr>, good_page [''Bye'']]\<rparr>"

text \<open>The first fragment of page 1, rendered in edit mode over the store with an edit.\<close>

definition restored_span :: span where
  "restored_span = processSpan edit_cfg (currentTab edited_tabs ''t1'') 1 [] 0 (pdf_span ''Hello'')"

text \<open>
  A page on which \<^verbatim>\<open>renderPage\<close> throws: \<^verbatim>\<open>pdf.getPage\<close> rejects, or, the
  canvas having a context, \<^verbatim>\<open>page.render\<close> or \<^verbatim>\<open>page.getTextContent\<close> rejects.
\<close>

definition hardFailure :: "page_src \<Rightarrow> bool" where
  "hardFailure src =
     (\<not> getPage_ok src \<or> (context_ok src \<and> (\<not> render_ok src \<or> \<not> getTextContent_ok src)))"

text \<open>The page container that a \<^verbatim>\<open>renderPage\<close> without exception leaves behind,
  and what such a page adds to the container and to the events.\<close>

definition nodeOf :: "cfg \<Rightarrow> tab option \<Rightarrow> pdf_src \<Rightarrow> nat \<Rightarrow> page_src \<Rightarrow> page_node" where
  "nodeOf c t pdf k src =
     \<lparr>page_no = k, editClass = isEditMode c, rasterized = True,
      spans = (if hasTextLayer pdf \<and> textLayer_ok src
               then processSpans c t k (items src) (layer src) else [])\<rparr>"

definition pageEffect :: "cfg \<Rightarrow> tab option \<Rightarrow> pdf_src \<Rightarrow> nat \<times> page_src \<Rightarrow> page_node list \<times> event list" where
  "pageEffect c t pdf x =
     (case x of (k, src) \<Rightarrow>
        if context_ok src
        then ([nodeOf c t pdf k src],
              Appended k # (if hasTextLayer pdf \<and> \<not> textLayer_ok src
                            then [Warned TextLayerFailed] else []))
        else ([], []))"

text \<open>The fragment identifiers on display, page by page.\<close>

definition fragmentIds :: "viewer \<Rightarrow> (nat \<times> string list) list option" where
  "fragmentIds v = map_option (map (\<lambda>n. (page_no n, map frag_id (spans n)))) (containerRef v)"

text \<open>The exception of a failing page, and what the page has added before it.\<close>

definition failError :: "page_src \<Rightarrow> error" where
  "failError src =
     (if \<not> getPage_ok src then GetPageFailed
      else if \<not> render_ok src then RenderFailed else GetTextContentFailed)"

definition failEffect :: "cfg \<Rightarrow> nat \<Rightarrow> page_src \<Rightarrow> page_node list \<times> event list" where
  "failEffect c k src =
     (if getPage_ok src
      then ([\<lparr>page_no = k, editClass = isEditMode c, rasterized = render_ok src, spans = []\<rparr>],
            [Appended k])
      else ([], []))"

text \<open>The identifiers a page puts on display, and the pages the loop gets to.\<close>

definition pageIds :: "pdf_src \<Rightarrow> nat \<times> page_src \<Rightarrow> (nat \<times> string list) list" where
  "pageIds pdf x =
     (case x of (k, src) \<Rightarrow>
        if getPage_ok src \<and> context_ok src
        then [(k, if render_ok src \<and> getTextContent_ok src \<and> hasTextLayer pdf \<and> textLayer_ok src
                  then map (spanId k) [0..<length (layer src)] else [])]
        else [])"

definition rendered :: "page_src list \<Rightarrow> page_src list" where
  "rendered ps =
     takeWhile (\<lambda>src. \<not> hardFailure src) ps @ take 1 (dropWhile (\<lambda>src. \<not> hardFailure src) ps)"

text \<open>The texts on display, page by page.\<close>

definition fragmentTexts :: "viewer \<Rightarrow> string list list option" where
  "fragmentTexts v = map_option (map (\<lambda>n. map textContent (spans n))) (containerRef v)"

text \<open>A document of one page, and its only fragment as first rendered in edit mode.\<close>

definition one_page :: pdf_src where
  "one_page = \<lparr>getDocument_ok = True, hasTextLayer = True, pages = [good_page [''Hello'']]\<rparr>"

definition hello_span :: span where
  "hello_span = processSpan edit_cfg (currentTab fresh_tabs ''t1'') 1 [] 0 (pdf_span ''Hello'')"

text \<open>A document whose first page has no usable text layer.\<close>

definition soft_failing :: pdf_src where
  "soft_failing = \<lparr>getDocument_ok = True, hasTextLayer = True,
                   pages = [(good_page [''Hello''])\<lparr>textLayer_ok := False\<rparr>, good_page [''Bye'']]\<rparr>"

text \<open>The store after \<open>''Salut''\<close> has been committed to the first fragment of page 1,
  and that fragment as the next render shows it.\<close>

definition committed_tabs :: "tab list" where
  "committed_tabs = snd (blur (typeText ''Salut'' (click hello_span)) fresh_tabs)"

definition salut_span :: span where
  "salut_span = processSpan read_cfg (currentTab committed_tabs ''t1'') 1 [] 0 (pdf_span ''Hello'')"

section \<open>Properties of the lookup resolver\<close>

subsection \<open>Splitting and tokens\<close>

lemma split_ws_not_Nil: "split_ws s \<noteq> []"
  by (induction s rule: split_ws.induct) (auto split: list.splits)

lemma ws_tokens_Nil: "ws_tokens [] = []"
  by (simp add: ws_tokens.simps)

lemma ws_tokens_space: "is_space c \<Longrightarrow> ws_tokens (c # cs) = ws_tokens cs"
  by (simp add: ws_tokens.simps [of "c # cs"] ws_tokens.simps [of cs])

lemma ws_tokens_nonspace:
  "\<not> is_space c \<Longrightarrow>
   ws_tokens (c # cs) =
     (c # takeWhile (\<lambda>x. \<not> is_space x) cs) # ws_tokens (dropWhile (\<lambda>x. \<not> is_space x) cs)"
  by (simp add: ws_tokens.simps [of "c # cs"])

lemma ws_tokens_dropWhile: "ws_tokens (dropWhile is_space s) = ws_tokens s"
  by (induction s) (simp_all add: ws_tokens_space)

lemma filter_split_ws: "filter (\<lambda>p. p \<noteq> []) (split_ws s) = ws_tokens s"
proof (induction s rule: split_ws.induct)
  case 1
  show ?case by (simp add: ws_tokens_Nil)
next
  case (2 c cs)
  show ?case
  proof (cases "is_space c")
    case True
    with 2 show ?thesis by (simp add: ws_tokens_space ws_tokens_dropWhile)
  next
    case False
    note nsp = this
    obtain p ps where sp: "split_ws cs = p # ps"
      using split_ws_not_Nil [of cs] by (cases "split_ws cs") auto
    have ih: "filter (\<lambda>p. p \<noteq> []) (p # ps) = ws_tokens cs"
      using 2(2) [OF nsp] sp by simp
    show ?thesis
    proof (cases cs)
      case Nil
      with nsp sp show ?thesis by (simp add: ws_tokens_nonspace ws_tokens_Nil)
    next
      case (Cons d ds)
      show ?thesis
      proof (cases "is_space d")
        case True
        with Cons sp have "p = []" by simp
        with ih nsp sp True Cons show ?thesis
          by (simp add: ws_tokens_nonspace)
      next
        case False
        with ih Cons have "filter (\<lambda>p. p \<noteq> []) (p # ps) =
          (d # takeWhile (\<lambda>x. \<not> is_space x) ds) # ws_tokens (dropWhile (\<lambda>x. \<not> is_space x) ds)"
          by (simp add: ws_tokens_nonspace)
        moreover from False Cons sp have "p \<noteq> []" by (auto split: list.splits)
        ultimately show ?thesis using nsp sp False Cons
          by (simp add: ws_tokens_nonspace)
      qed
    qed
  qed
qed

lemma tokens_le_split: "length (ws_tokens s) \<le> length (split_ws s)"
  unfolding filter_split_ws [symmetric] by (rule length_filter_le)

subsection \<open>The parsing loops\<close>

lemma forEach_concat:
  "forEach f xs = Inr ys \<Longrightarrow> \<exists>yss. ys = concat yss \<and> list_all2 (\<lambda>x zs. f x = Inr zs) xs yss"
proof (induction xs arbitrary: ys)
  case Nil
  then show ?case by simp
next
  case (Cons x xs)
  from Cons.prems obtain a b where a: "f x = Inr a" and b: "forEach f xs = Inr b" and ys: "ys = a @ b"
    by (auto split: sum.splits)
  from Cons.IH [OF b] obtain yss where "b = concat yss" "list_all2 (\<lambda>x zs. f x = Inr zs) xs yss"
    by blast
  with a ys have "ys = concat (a # yss) \<and> list_all2 (\<lambda>x zs. f x = Inr zs) (x # xs) (a # yss)"
    by simp
  then show ?case by blast
qed

lemma defLine_shape:
  "defLine m d = Inr ls \<Longrightarrow>
   ls = [] \<or> (\<exists>p t. posLabel m = Inr p \<and> ls = [''('' @ p @ '') '' @ t])"
  by (auto simp: defLine_def split: sum.splits option.splits if_splits)

lemma defLine_length: "defLine m d = Inr ls \<Longrightarrow> length ls \<le> 1"
  using defLine_shape [of m d ls] by auto

lemma forEach_length:
  "(\<And>x ls. f x = Inr ls \<Longrightarrow> length ls \<le> 1) \<Longrightarrow> forEach f xs = Inr ys \<Longrightarrow> length ys \<le> length xs"
proof (induction xs arbitrary: ys)
  case Nil
  then show ?case by simp
next
  case (Cons x xs)
  from Cons.prems(2) obtain a b where a: "f x = Inr a" and b: "forEach f xs = Inr b" and ys: "ys = a @ b"
    by (auto split: sum.splits)
  have "length a \<le> 1" using Cons.prems(1) a by blast
  moreover have "length b \<le> length xs" using Cons.IH Cons.prems(1) b by blast
  ultimately show ?case using ys by simp
qed

lemma forEach_all:
  "(\<And>x ls. f x = Inr ls \<Longrightarrow> \<forall>l\<in>set ls. P l) \<Longrightarrow> forEach f xs = Inr ys \<Longrightarrow> \<forall>l\<in>set ys. P l"
proof (induction xs arbitrary: ys)
  case Nil
  then show ?case by simp
next
  case (Cons x xs)
  from Cons.prems(2) obtain a b where a: "f x = Inr a" and b: "forEach f xs = Inr b" and ys: "ys = a @ b"
    by (auto split: sum.splits)
  have "\<forall>l\<in>set a. P l" using Cons.prems(1) a by blast
  moreover have "\<forall>l\<in>set b. P l" using Cons.IH Cons.prems(1) b by blast
  ultimately show ?case using ys by auto
qed

lemma meaningDefs_length: "meaningDefs m = Inr ls \<Longrightarrow> length ls \<le> 2"
proof -
  assume a: "meaningDefs m = Inr ls"
  show ?thesis
  proof (cases "\<exists>ds. getProp m ''definitions'' = Inr (Some (JArr ds))")
    case True
    then obtain ds where ds: "getProp m ''definitions'' = Inr (Some (JArr ds))" by blast
    with a have "forEach (defLine m) (take 2 ds) = Inr ls" by (simp add: meaningDefs_def)
    from forEach_length [OF _ this] have "length ls \<le> length (take 2 ds)"
      using defLine_length by blast
    then show ?thesis by simp
  next
    case False
    with a have "ls = []"
      by (auto simp: meaningDefs_def split: sum.splits option.splits json.splits)
    then show ?thesis by simp
  qed
qed

lemma meaningDefs_prefix:
  "meaningDefs m = Inr ls \<Longrightarrow> \<forall>l\<in>set ls. \<exists>p t. posLabel m = Inr p \<and> l = ''('' @ p @ '') '' @ t"
proof -
  assume a: "meaningDefs m = Inr ls"
  show ?thesis
  proof (cases "\<exists>ds. getProp m ''definitions'' = Inr (Some (JArr ds))")
    case True
    then obtain ds where ds: "getProp m ''definitions'' = Inr (Some (JArr ds))" by blast
    with a have fe: "forEach (defLine m) (take 2 ds) = Inr ls" by (simp add: meaningDefs_def)
    show ?thesis
    proof (rule forEach_all [OF _ fe])
      fix x ls'
      assume "defLine m x = Inr ls'"
      from defLine_shape [OF this]
      show "\<forall>l\<in>set ls'. \<exists>p t. posLabel m = Inr p \<and> l = ''('' @ p @ '') '' @ t" by auto
    qed
  next
    case False
    with a have "ls = []"
      by (auto simp: meaningDefs_def split: sum.splits option.splits json.splits)
    then show ?thesis by simp
  qed
qed

subsection \<open>The two stages\<close>

lemma online_try_cases:
  "fetchOnlineDefinition_try e term = (r, tr) \<Longrightarrow>
   tr = (if rejected (cleanTerm term) then [] else [Fetch (cleanTerm term)])"
  by (auto simp: fetchOnlineDefinition_try_def Let_def split: if_splits sum.splits)

lemma online_calls:
  "snd (fetchOnlineDefinition e term) =
     (if rejected (cleanTerm term) then [] else [Fetch (cleanTerm term)])"
proof -
  obtain r tr where rt: "fetchOnlineDefinition_try e term = (r, tr)"
    by (cases "fetchOnlineDefinition_try e term")
  from online_try_cases [OF rt] rt show ?thesis
    by (cases r) (simp_all add: fetchOnlineDefinition_def)
qed

lemma online_total: "\<exists>ds. fst (fetchOnlineDefinition e term) = Inr ds"
proof -
  obtain r tr where rt: "fetchOnlineDefinition_try e term = (r, tr)"
    by (cases "fetchOnlineDefinition_try e term")
  then show ?thesis by (cases r) (simp_all add: fetchOnlineDefinition_def)
qed

lemma online_rejected:
  "rejected (cleanTerm term) \<Longrightarrow> fetchOnlineDefinition e term = (Inr [], [])"
  by (simp add: fetchOnlineDefinition_def fetchOnlineDefinition_try_def)

lemma online_result:
  "fst (fetchOnlineDefinition e term) = Inr rs \<Longrightarrow> rs \<noteq> [] \<Longrightarrow>
   \<exists>r data defs. \<not> rejected (cleanTerm term) \<and> fetch e (cleanTerm term) = Inr r \<and> ok r \<and>
      body r = Inr data \<and> parseDefs data = Inr defs \<and> rs = take 3 defs"
  by (auto simp: fetchOnlineDefinition_def fetchOnlineDefinition_try_def Let_def
           split: if_splits sum.splits)

lemma online_length: "fst (fetchOnlineDefinition e term) = Inr rs \<Longrightarrow> length rs \<le> 3"
  by (auto simp: fetchOnlineDefinition_def fetchOnlineDefinition_try_def Let_def
           split: if_splits sum.splits)

lemma local_try_calls:
  "snd (localLookup_try e word) =
     (if importCore e = Inr True then [Invoke (trim word)] else [])"
  by (auto simp: localLookup_try_def split: sum.splits option.splits)

lemma local_try_found:
  "(fst (localLookup_try e word) = Inr (Some rs)) =
   (importCore e = Inr True \<and> invoke e (trim word) = Inr (Some rs) \<and> rs \<noteq> [])"
  by (auto simp: localLookup_try_def split: sum.splits option.splits)

lemma fetchDefinition_local:
  assumes "isTauri e" and "fst (localLookup_try e word) = Inr (Some rs)"
  shows "fetchDefinition e word =
           (Inr \<lparr>definitions = rs, source = Some Local, loading = False\<rparr>,
            snd (localLookup_try e word))"
proof -
  obtain tr where "localLookup_try e word = (Inr (Some rs), tr)"
    using assms(2) by (cases "localLookup_try e word") auto
  with assms(1) show ?thesis by (simp add: fetchDefinition_def)
qed

lemma fetchDefinition_remote:
  assumes "\<not> (isTauri e \<and> (\<exists>rs. fst (localLookup_try e word) = Inr (Some rs)))"
  shows "fetchDefinition e word =
           (Inr (case fst (fetchOnlineDefinition e word) of
                   Inl x \<Rightarrow> \<lparr>definitions = [], source = None, loading = False\<rparr>
                 | Inr ds \<Rightarrow> if ds \<noteq> [] then \<lparr>definitions = ds, source = Some Online, loading = False\<rparr>
                             else \<lparr>definitions = [], source = None, loading = False\<rparr>),
            (if isTauri e then snd (localLookup_try e word) else [])
              @ snd (fetchOnlineDefinition e word))"
proof -
  obtain r tr where rt: "fetchOnlineDefinition e word = (r, tr)"
    by (cases "fetchOnlineDefinition e word")
  show ?thesis
  proof (cases "isTauri e")
    case False
    with rt show ?thesis
      by (cases r) (simp_all add: fetchDefinition_def)
  next
    case True
    obtain l tl where lt: "localLookup_try e word = (l, tl)"
      by (cases "localLookup_try e word")
    with assms True have "\<forall>rs. l \<noteq> Inr (Some rs)" by simp
    then have "(\<exists>x. l = Inl x) \<or> l = Inr None"
      by (cases l) (auto)
    with True lt rt show ?thesis
      by (cases r) (auto simp add: fetchDefinition_def)
  qed
qed

lemmas norm_eval = cleanTerm_def trim_def is_space_def is_punct_def toLowerCase_def
  toLowerChar_def char_of_def bit_Suc_0_iff rejected_def

text \<open>
  Claim C5, as the code has it. Normalisation trims the term, removes the punctuation
  class and lowercases, so that \<open>''Running!! ''\<close> becomes \<open>''running''\<close>. When
  the normalised term is shorter than 2 or has more than 3 white-space-delimited tokens,
  the remote stage returns the empty list without any request, and no request is made by
  the resolver as a whole. The resolver then ends empty, except when the local dictionary
  (asked first, with the trimmed term) gave a non-empty answer, which is returned tagged
  \<open>Local\<close>.
\<close>

theorem normalize_and_reject:
  "cleanTerm ''Running!! '' = ''running'' \<and>
   (length (cleanTerm term) < 2 \<or> 3 < length (ws_tokens (cleanTerm term)) \<longrightarrow>
      fetchOnlineDefinition e term = (Inr [], []) \<and>
      remoteCalls (snd (fetchDefinition e term)) = [] \<and>
      (fst (fetchDefinition e term) = Inr \<lparr>definitions = [], source = None, loading = False\<rparr> \<or>
       (\<exists>rs. rs \<noteq> [] \<and> isTauri e \<and> importCore e = Inr True \<and>
             invoke e (trim term) = Inr (Some rs) \<and>
             fst (fetchDefinition e term) =
               Inr \<lparr>definitions = rs, source = Some Local, loading = False\<rparr>)))"
proof (intro conjI impI)
  show "cleanTerm ''Running!! '' = ''running''"
    by (simp add: norm_eval)
next
  assume h: "length (cleanTerm term) < 2 \<or> 3 < length (ws_tokens (cleanTerm term))"
  have rej: "rejected (cleanTerm term)"
    using h tokens_le_split [of "cleanTerm term"] by (auto simp: rejected_def)
  show on: "fetchOnlineDefinition e term = (Inr [], [])"
    by (rule online_rejected [OF rej])
  show "remoteCalls (snd (fetchDefinition e term)) = []"
  proof (cases "isTauri e \<and> (\<exists>rs. fst (localLookup_try e term) = Inr (Some rs))")
    case True
    then obtain rs where "isTauri e" "fst (localLookup_try e term) = Inr (Some rs)" by blast
    from fetchDefinition_local [OF this] show ?thesis
      by (simp add: local_try_calls)
  next
    case False
    from fetchDefinition_remote [OF this] on show ?thesis
      by (simp add: local_try_calls)
  qed
  show "fst (fetchDefinition e term) = Inr \<lparr>definitions = [], source = None, loading = False\<rparr> \<or>
       (\<exists>rs. rs \<noteq> [] \<and> isTauri e \<and> importCore e = Inr True \<and>
             invoke e (trim term) = Inr (Some rs) \<and>
             fst (fetchDefinition e term) =
               Inr \<lparr>definitions = rs, source = Some Local, loading = False\<rparr>)"
  proof (cases "isTauri e \<and> (\<exists>rs. fst (localLookup_try e term) = Inr (Some rs))")
    case True
    then obtain rs where t: "isTauri e" and f: "fst (localLookup_try e term) = Inr (Some rs)" by blast
    from f have "importCore e = Inr True \<and> invoke e (trim term) = Inr (Some rs) \<and> rs \<noteq> []"
      by (simp add: local_try_found)
    with fetchDefinition_local [OF t f] t show ?thesis by auto
  next
    case False
    from fetchDefinition_remote [OF this] on show ?thesis by simp
  qed
qed

theorem normalize_and_reject_witness:
  "3 < length (ws_tokens (cleanTerm ''a b c d'')) \<and>
   fetchOnlineDefinition (web_env JNull) ''a b c d'' = (Inr [], []) \<and>
   length (cleanTerm ''I'') < 2 \<and>
   remoteCalls (snd (fetchDefinition (desktop_env [''the speaker''] JNull) ''I'')) = []"
proof -
  have c: "cleanTerm ''a b c d'' = ''a b c d''" by (simp add: norm_eval)
  have h1: "3 < length (ws_tokens (cleanTerm ''a b c d''))"
    unfolding c by (simp add: ws_tokens_space ws_tokens_nonspace ws_tokens_Nil is_space_def)
  have h2: "length (cleanTerm ''I'') < 2" by (simp add: norm_eval)
  show ?thesis
    using h1 h2 normalize_and_reject [of "''a b c d''" "web_env JNull"]
      normalize_and_reject [of "''I''" "desktop_env [''the speaker''] JNull"]
    by blast
qed

text \<open>
  The one-letter word \<open>''I''\<close> normalises to a term of length 1, yet on the desktop
  the resolver returns the answer of the local dictionary, not the empty result.
\<close>

theorem resolve_rejected_counterexample:
  "length (cleanTerm ''I'') < 2 \<and>
   fst (fetchDefinition (desktop_env [''the speaker''] JNull) ''I'') =
     Inr \<lparr>definitions = [''the speaker''], source = Some Local, loading = False\<rparr>"
  by (simp add: norm_eval fetchDefinition_def localLookup_try_def desktop_env_def)

text \<open>
  Claim C4, as the code has it. The resolver asks the local dictionary first, and only
  when the desktop runtime is present and \<^verbatim>\<open>invoke\<close> is a function, with the
  trimmed but otherwise unchanged word; every call to the local dictionary precedes every
  request. A non-empty local answer is returned tagged \<open>Local\<close> and no request is made.
  In every other case (no desktop runtime, a failed import or call, an empty or missing
  answer) the remote dictionary receives exactly one request, for the normalised term,
  when that term passes the check on its length and on the number of its pieces, and no
  request at all when the term is rejected.
\<close>

theorem local_first_then_remote:
  "(localCalls (snd (fetchDefinition e word)) =
      (if isTauri e \<and> importCore e = Inr True then [trim word] else [])) \<and>
   snd (fetchDefinition e word) =
      map Invoke (localCalls (snd (fetchDefinition e word)))
        @ map Fetch (remoteCalls (snd (fetchDefinition e word))) \<and>
   (isTauri e \<and> importCore e = Inr True \<and> invoke e (trim word) = Inr (Some rs) \<and> rs \<noteq> [] \<longrightarrow>
      fetchDefinition e word =
        (Inr \<lparr>definitions = rs, source = Some Local, loading = False\<rparr>, [Invoke (trim word)])) \<and>
   (\<not> (isTauri e \<and> importCore e = Inr True \<and>
        (\<exists>ls. invoke e (trim word) = Inr (Some ls) \<and> ls \<noteq> [])) \<longrightarrow>
      remoteCalls (snd (fetchDefinition e word)) =
        (if rejected (cleanTerm word) then [] else [cleanTerm word]))"
proof -
  have tr: "snd (fetchDefinition e word) =
      (if isTauri e \<and> importCore e = Inr True then [Invoke (trim word)] else [])
      @ (if isTauri e \<and> importCore e = Inr True \<and>
            (\<exists>ls. invoke e (trim word) = Inr (Some ls) \<and> ls \<noteq> []) then []
         else if rejected (cleanTerm word) then [] else [Fetch (cleanTerm word)])"
  proof (cases "isTauri e \<and> (\<exists>ls. fst (localLookup_try e word) = Inr (Some ls))")
    case True
    then obtain ls where t: "isTauri e" and f: "fst (localLookup_try e word) = Inr (Some ls)"
      by blast
    from f have "importCore e = Inr True \<and> invoke e (trim word) = Inr (Some ls) \<and> ls \<noteq> []"
      by (simp add: local_try_found)
    with fetchDefinition_local [OF t f] t show ?thesis
      by (auto simp: local_try_calls)
  next
    case False
    then have "\<not> (isTauri e \<and> importCore e = Inr True \<and>
        (\<exists>ls. invoke e (trim word) = Inr (Some ls) \<and> ls \<noteq> []))"
      by (auto simp: local_try_found)
    with fetchDefinition_remote [OF False] show ?thesis
      by (auto simp: local_try_calls online_calls)
  qed
  have found: "fetchDefinition e word =
        (Inr \<lparr>definitions = rs, source = Some Local, loading = False\<rparr>, [Invoke (trim word)])"
    if h: "isTauri e \<and> importCore e = Inr True \<and> invoke e (trim word) = Inr (Some rs) \<and> rs \<noteq> []"
  proof -
    from h have f: "fst (localLookup_try e word) = Inr (Some rs)"
      by (simp add: local_try_found)
    from h fetchDefinition_local [OF _ f] show ?thesis
      by (simp add: local_try_calls)
  qed
  show ?thesis
    using found by (auto simp: tr)
qed

theorem local_first_then_remote_witness:
  "fetchDefinition (desktop_env [''a happy accident''] JNull) '' serendipity! '' =
     (Inr \<lparr>definitions = [''a happy accident''], source = Some Local, loading = False\<rparr>,
      [Invoke ''serendipity!'']) \<and>
   remoteCalls (snd (fetchDefinition (web_env JNull) '' Serendipity! '')) = [''serendipity'']"
proof -
  have t: "trim '' serendipity! '' = ''serendipity!''"
    by (simp add: trim_def is_space_def)
  have c: "cleanTerm '' Serendipity! '' = ''serendipity''"
    by (simp add: norm_eval)
  have r: "\<not> rejected ''serendipity''"
    by (simp add: rejected_def is_space_def)
  have d: "isTauri (desktop_env [''a happy accident''] JNull) \<and>
           importCore (desktop_env [''a happy accident''] JNull) = Inr True \<and>
           invoke (desktop_env [''a happy accident''] JNull) (trim '' serendipity! '') =
             Inr (Some [''a happy accident''])"
    by (simp add: desktop_env_def)
  have w: "\<not> isTauri (web_env JNull)"
    by (simp add: web_env_def)
  show ?thesis
    using local_first_then_remote [of "desktop_env [''a happy accident''] JNull" "'' serendipity! ''"
        "[''a happy accident'']"]
      local_first_then_remote [of "web_env JNull" "'' Serendipity! ''" "[]"] d w
    by (simp add: t c r)
qed

text \<open>
  In the browser (no local dictionary) the word \<open>''a''\<close> is looked up without any
  request: the remote dictionary is invoked zero times, not once.
\<close>

theorem remote_once_counterexample:
  "\<not> isTauri (web_env JNull) \<and> remoteCalls (snd (fetchDefinition (web_env JNull) ''a'')) = []"
  by (simp add: norm_eval fetchDefinition_def fetchOnlineDefinition_def
      fetchOnlineDefinition_try_def web_env_def)

text \<open>
  Claim C6. For every runtime context and every word the resolver ends without an
  exception, with loading switched off and either a populated, tagged result or the
  explicit empty one; the remote stage on its own never throws either. An exception
  inside the remote stage (transport, JSON decoding, or a TypeError while walking the
  response) gives the empty list for that stage, and an exception inside the local stage
  (import or call) gives the same outcome as having no local dictionary.
\<close>

theorem resolver_never_throws:
  "(\<exists>b. fst (fetchDefinition e word) = Inr b \<and> \<not> loading b \<and>
        ((definitions b \<noteq> [] \<and> source b \<noteq> None) \<or> (definitions b = [] \<and> source b = None))) \<and>
   (\<exists>ds. fst (fetchOnlineDefinition e word) = Inr ds) \<and>
   ((\<exists>x. fst (fetchOnlineDefinition_try e word) = Inl x) \<longrightarrow>
      fst (fetchOnlineDefinition e word) = Inr []) \<and>
   ((\<exists>x. fst (localLookup_try e word) = Inl x) \<longrightarrow>
      fst (fetchDefinition e word) = fst (fetchDefinition (e\<lparr>isTauri := False\<rparr>) word))"
proof (intro conjI impI)
  show "\<exists>b. fst (fetchDefinition e word) = Inr b \<and> \<not> loading b \<and>
        ((definitions b \<noteq> [] \<and> source b \<noteq> None) \<or> (definitions b = [] \<and> source b = None))"
  proof (cases "isTauri e \<and> (\<exists>ls. fst (localLookup_try e word) = Inr (Some ls))")
    case True
    then obtain ls where t: "isTauri e" and f: "fst (localLookup_try e word) = Inr (Some ls)"
      by blast
    from f have "ls \<noteq> []" by (simp add: local_try_found)
    with fetchDefinition_local [OF t f] show ?thesis by simp
  next
    case False
    from fetchDefinition_remote [OF False] show ?thesis
      by (auto split: sum.splits)
  qed
  show "\<exists>ds. fst (fetchOnlineDefinition e word) = Inr ds"
    by (rule online_total)
next
  assume "\<exists>x. fst (fetchOnlineDefinition_try e word) = Inl x"
  then obtain x where "fst (fetchOnlineDefinition_try e word) = Inl x" by blast
  then obtain tr where "fetchOnlineDefinition_try e word = (Inl x, tr)"
    by (cases "fetchOnlineDefinition_try e word") auto
  then show "fst (fetchOnlineDefinition e word) = Inr []"
    by (simp add: fetchOnlineDefinition_def)
next
  assume "\<exists>x. fst (localLookup_try e word) = Inl x"
  then have nf: "\<not> (isTauri e \<and> (\<exists>rs. fst (localLookup_try e word) = Inr (Some rs)))"
    by auto
  have nf': "\<not> (isTauri (e\<lparr>isTauri := False\<rparr>) \<and>
      (\<exists>rs. fst (localLookup_try (e\<lparr>isTauri := False\<rparr>) word) = Inr (Some rs)))"
    by simp
  have same: "fetchOnlineDefinition (e\<lparr>isTauri := False\<rparr>) word = fetchOnlineDefinition e word"
    by (simp add: fetchOnlineDefinition_def fetchOnlineDefinition_try_def Let_def)
  show "fst (fetchDefinition e word) = fst (fetchDefinition (e\<lparr>isTauri := False\<rparr>) word)"
    unfolding fetchDefinition_remote [OF nf] fetchDefinition_remote [OF nf'] same by simp
qed

theorem resolver_never_throws_witness:
  "fst (fetchOnlineDefinition_try failing_env ''word'') = Inl FetchFailed \<and>
   fst (fetchOnlineDefinition failing_env ''word'') = Inr [] \<and>
   fst (localLookup_try failing_env ''word'') = Inl InvokeFailed \<and>
   fst (fetchDefinition failing_env ''word'') =
     fst (fetchDefinition (failing_env\<lparr>isTauri := False\<rparr>) ''word'')"
proof -
  have c: "cleanTerm ''word'' = ''word''" by (simp add: norm_eval)
  have r: "\<not> rejected ''word''" by (simp add: rejected_def is_space_def)
  have a: "fst (fetchOnlineDefinition_try failing_env ''word'') = Inl FetchFailed"
    by (simp add: fetchOnlineDefinition_try_def c r failing_env_def)
  have b: "fst (localLookup_try failing_env ''word'') = Inl InvokeFailed"
    by (simp add: localLookup_try_def failing_env_def)
  show ?thesis
    using a b resolver_never_throws [of failing_env "''word''"] by simp
qed

lemma entryDefs_concat:
  "entryDefs entry = Inr zs \<Longrightarrow>
   \<exists>lss. zs = concat lss \<and> list_all2 (\<lambda>m ls. meaningDefs m = Inr ls) (meaningsOf entry) lss"
proof (cases "\<exists>ms. getProp entry ''meanings'' = Inr (Some (JArr ms))")
  case True
  assume a: "entryDefs entry = Inr zs"
  from True obtain ms where ms: "getProp entry ''meanings'' = Inr (Some (JArr ms))" by blast
  with a have "forEach meaningDefs ms = Inr zs" by (simp add: entryDefs_def)
  from forEach_concat [OF this] ms show ?thesis by (simp add: meaningsOf_def)
next
  case False
  assume a: "entryDefs entry = Inr zs"
  with False have "zs = []"
    by (auto simp: entryDefs_def split: sum.splits option.splits json.splits)
  moreover from False have "meaningsOf entry = []"
    by (auto simp: meaningsOf_def split: sum.splits option.splits json.splits)
  ultimately show ?thesis by simp
qed

lemma entries_concat:
  "forEach entryDefs entries = Inr defs \<Longrightarrow>
   \<exists>lss. defs = concat lss \<and>
     list_all2 (\<lambda>m ls. meaningDefs m = Inr ls) (concat (map meaningsOf entries)) lss"
proof (induction entries arbitrary: defs)
  case Nil
  then show ?case by simp
next
  case (Cons entry entries)
  from Cons.prems obtain a b where a: "entryDefs entry = Inr a"
    and b: "forEach entryDefs entries = Inr b" and d: "defs = a @ b"
    by (auto split: sum.splits)
  from entryDefs_concat [OF a] obtain l1 where
    l1: "a = concat l1" "list_all2 (\<lambda>m ls. meaningDefs m = Inr ls) (meaningsOf entry) l1"
    by blast
  from Cons.IH [OF b] obtain l2 where
    l2: "b = concat l2"
      "list_all2 (\<lambda>m ls. meaningDefs m = Inr ls) (concat (map meaningsOf entries)) l2"
    by blast
  have "defs = concat (l1 @ l2)" using d l1(1) l2(1) by simp
  moreover have "list_all2 (\<lambda>m ls. meaningDefs m = Inr ls)
      (concat (map meaningsOf (entry # entries))) (l1 @ l2)"
    using l1(2) l2(2) by (simp add: list_all2_appendI)
  ultimately show ?case by blast
qed

lemma forEach_singletons:
  "list_all2 (\<lambda>d t. g d = Inr [h t]) ds ts \<Longrightarrow> forEach g ds = Inr (map h ts)"
  by (induction rule: list_all2_induct) simp_all

lemma contribution_included:
  assumes "list_all2 (\<lambda>m ls. meaningDefs m = Inr ls) ms lss" and "m \<in> set ms"
    and "meaningDefs m = Inr ls"
  shows "set ls \<subseteq> set (concat lss)"
proof -
  from assms(2) obtain i where i: "i < length ms" "ms ! i = m"
    by (auto simp: in_set_conv_nth)
  from assms(1) i have "meaningDefs m = Inr (lss ! i)" and l: "i < length lss"
    by (auto simp: list_all2_conv_all_nth)
  with assms(3) have "lss ! i = ls" by simp
  with l have "ls \<in> set lss" by (auto simp: in_set_conv_nth)
  then show ?thesis by auto
qed

lemma defLine_fields:
  "defLine m d = Inr ls \<Longrightarrow>
   ls = [] \<or>
   (\<exists>v t. getProp d ''definition'' = Inr (Some v) \<and> truthy (Some v) \<and> toString v = Inr t \<and>
      ((\<exists>w p. getProp m ''partOfSpeech'' = Inr (Some w) \<and> truthy (Some w) \<and>
              toString w = Inr p \<and> ls = [''('' @ p @ '') '' @ t]) \<or>
       (\<exists>pv. getProp m ''partOfSpeech'' = Inr pv \<and> \<not> truthy pv \<and> ls = [''(noun) '' @ t])))"
  by (auto simp: defLine_def posLabel_def split: sum.splits option.splits if_splits)

lemma forEach_mem:
  "forEach f xs = Inr ys \<Longrightarrow> l \<in> set ys \<Longrightarrow> \<exists>x\<in>set xs. \<exists>ls. f x = Inr ls \<and> l \<in> set ls"
proof (induction xs arbitrary: ys)
  case Nil
  then show ?case by simp
next
  case (Cons x xs)
  from Cons.prems(1) obtain a b where a: "f x = Inr a" and b: "forEach f xs = Inr b"
    and ys: "ys = a @ b"
    by (auto split: sum.splits)
  from Cons.prems(2) ys have "l \<in> set a \<or> l \<in> set b" by simp
  then show ?case
  proof
    assume "l \<in> set a"
    with a show ?thesis by auto
  next
    assume "l \<in> set b"
    from Cons.IH [OF b this] show ?thesis by auto
  qed
qed

lemma meaningDefs_fields:
  assumes "meaningDefs m = Inr ls" and "l \<in> set ls"
  shows "\<exists>ds d v t. getProp m ''definitions'' = Inr (Some (JArr ds)) \<and> d \<in> set (take 2 ds) \<and>
      getProp d ''definition'' = Inr (Some v) \<and> truthy (Some v) \<and> toString v = Inr t \<and>
      ((\<exists>w p. getProp m ''partOfSpeech'' = Inr (Some w) \<and> truthy (Some w) \<and>
              toString w = Inr p \<and> l = ''('' @ p @ '') '' @ t) \<or>
       (\<exists>pv. getProp m ''partOfSpeech'' = Inr pv \<and> \<not> truthy pv \<and> l = ''(noun) '' @ t))"
proof (cases "\<exists>ds. getProp m ''definitions'' = Inr (Some (JArr ds))")
  case True
  then obtain ds where ds: "getProp m ''definitions'' = Inr (Some (JArr ds))" by blast
  with assms(1) have fe: "forEach (defLine m) (take 2 ds) = Inr ls" by (simp add: meaningDefs_def)
  from forEach_mem [OF fe assms(2)] obtain d ls' where
    d: "d \<in> set (take 2 ds)" "defLine m d = Inr ls'" "l \<in> set ls'"
    by blast
  from defLine_fields [OF d(2)] d(3) ds d(1) show ?thesis
    by (elim disjE exE conjE) (simp, (intro exI conjI, assumption, assumption, assumption,
      assumption, assumption, auto)+)
next
  case False
  with assms(1) have "ls = []"
    by (auto simp: meaningDefs_def split: sum.splits option.splits json.splits)
  with assms(2) show ?thesis by simp
qed


lemma parseDefs_fields:
  assumes "parseDefs data = Inr defs" and "defs \<noteq> []"
  shows "\<exists>entries lss. data = JArr entries \<and> defs = concat lss \<and>
     list_all2 (\<lambda>m ls. meaningDefs m = Inr ls \<and> length ls \<le> 2 \<and>
        (\<forall>l\<in>set ls.
           \<exists>ds d v t. getProp m ''definitions'' = Inr (Some (JArr ds)) \<and> d \<in> set (take 2 ds) \<and>
             getProp d ''definition'' = Inr (Some v) \<and> truthy (Some v) \<and> toString v = Inr t \<and>
             ((\<exists>w p. getProp m ''partOfSpeech'' = Inr (Some w) \<and> truthy (Some w) \<and>
                     toString w = Inr p \<and> l = ''('' @ p @ '') '' @ t) \<or>
              (\<exists>pv. getProp m ''partOfSpeech'' = Inr pv \<and> \<not> truthy pv \<and>
                    l = ''(noun) '' @ t))))
       (concat (map meaningsOf entries)) lss"
proof -
  from assms obtain entries where d: "data = JArr entries"
    by (cases data) (auto simp: parseDefs_def)
  with assms(1) have "forEach entryDefs entries = Inr defs" by (simp add: parseDefs_def)
  from entries_concat [OF this] obtain lss where
    l: "defs = concat lss"
       "list_all2 (\<lambda>m ls. meaningDefs m = Inr ls) (concat (map meaningsOf entries)) lss"
    by blast
  have "list_all2 (\<lambda>m ls. meaningDefs m = Inr ls \<and> length ls \<le> 2 \<and>
        (\<forall>l\<in>set ls.
           \<exists>ds d v t. getProp m ''definitions'' = Inr (Some (JArr ds)) \<and> d \<in> set (take 2 ds) \<and>
             getProp d ''definition'' = Inr (Some v) \<and> truthy (Some v) \<and> toString v = Inr t \<and>
             ((\<exists>w p. getProp m ''partOfSpeech'' = Inr (Some w) \<and> truthy (Some w) \<and>
                     toString w = Inr p \<and> l = ''('' @ p @ '') '' @ t) \<or>
              (\<exists>pv. getProp m ''partOfSpeech'' = Inr pv \<and> \<not> truthy pv \<and>
                    l = ''(noun) '' @ t))))
       (concat (map meaningsOf entries)) lss"
    using l(2)
  proof (rule list_all2_mono)
    fix m ls
    assume a: "meaningDefs m = Inr ls"
    show "meaningDefs m = Inr ls \<and> length ls \<le> 2 \<and>
        (\<forall>l\<in>set ls.
           \<exists>ds d v t. getProp m ''definitions'' = Inr (Some (JArr ds)) \<and> d \<in> set (take 2 ds) \<and>
             getProp d ''definition'' = Inr (Some v) \<and> truthy (Some v) \<and> toString v = Inr t \<and>
             ((\<exists>w p. getProp m ''partOfSpeech'' = Inr (Some w) \<and> truthy (Some w) \<and>
                     toString w = Inr p \<and> l = ''('' @ p @ '') '' @ t) \<or>
              (\<exists>pv. getProp m ''partOfSpeech'' = Inr pv \<and> \<not> truthy pv \<and>
                    l = ''(noun) '' @ t)))"
    proof (intro conjI ballI)
      show "meaningDefs m = Inr ls" by (rule a)
      show "length ls \<le> 2" by (rule meaningDefs_length [OF a])
    next
      fix l assume "l \<in> set ls"
      from meaningDefs_fields [OF a this]
      show "\<exists>ds d v t. getProp m ''definitions'' = Inr (Some (JArr ds)) \<and> d \<in> set (take 2 ds) \<and>
             getProp d ''definition'' = Inr (Some v) \<and> truthy (Some v) \<and> toString v = Inr t \<and>
             ((\<exists>w p. getProp m ''partOfSpeech'' = Inr (Some w) \<and> truthy (Some w) \<and>
                     toString w = Inr p \<and> l = ''('' @ p @ '') '' @ t) \<or>
              (\<exists>pv. getProp m ''partOfSpeech'' = Inr pv \<and> \<not> truthy pv \<and>
                    l = ''(noun) '' @ t))" .
    qed
  qed
  with d l(1) show ?thesis by blast
qed

lemma meaningDefs_typed:
  assumes "getProp m ''partOfSpeech'' = Inr (Some (JStr p))" and "p \<noteq> []"
    and "getProp m ''definitions'' = Inr (Some (JArr ds))"
    and "list_all2 (\<lambda>d t. getProp d ''definition'' = Inr (Some (JStr t)) \<and> t \<noteq> []) ds ts"
  shows "meaningDefs m = Inr (map (\<lambda>t. ''('' @ p @ '') '' @ t) (take 2 ts))"
proof -
  have pl: "posLabel m = Inr p"
    using assms(1,2) by (simp add: posLabel_def)
  have "list_all2 (\<lambda>d t. getProp d ''definition'' = Inr (Some (JStr t)) \<and> t \<noteq> [])
          (take 2 ds) (take 2 ts)"
    using assms(4) by (rule list_all2_takeI)
  then have "list_all2 (\<lambda>d t. defLine m d = Inr [''('' @ p @ '') '' @ t]) (take 2 ds) (take 2 ts)"
    by (rule list_all2_mono) (simp add: defLine_def pl)
  from forEach_singletons [OF this] show ?thesis
    using assms(3) by (simp add: meaningDefs_def)
qed

lemma go_parse:
  "parseDefs go_response =
     Inr [''(verb) to move'', ''(verb) to leave'', ''(noun) a turn'', ''(noun) an attempt'']"
  by (simp add: parseDefs_def entryDefs_def meaningDefs_def defLine_def posLabel_def
      go_response_def)

text \<open>
  Claim C7. Whatever the remote dictionary answers, the list returned by the remote stage
  has at most 3 elements. When it is not empty, the response body was an array of
  entries and every meaning of every entry contributed at most 2 strings. Each of them
  is made from one of the first two elements of the \<^verbatim>\<open>definitions\<close> of that
  meaning, whose \<^verbatim>\<open>definition\<close> is truthy, and reads \<open>(p) t\<close> where
  \<open>t\<close> is that definition and \<open>p\<close> is the \<^verbatim>\<open>partOfSpeech\<close> field of the same
  meaning, or \<open>noun\<close> when the field is missing or falsy. The result is the first 3
  strings of these contributions in order and, the local dictionary not having answered,
  the resolver returns it tagged \<open>Online\<close>. In particular a meaning whose part of
  speech is the non-empty string \<open>p\<close> and whose definitions are non-empty strings
  contributes exactly its first two definitions, each prefixed with \<open>(p)\<close>.
\<close>

theorem remote_result_caps:
  assumes "fst (fetchOnlineDefinition e term) = Inr rs"
  shows "length rs \<le> 3 \<and>
    (rs \<noteq> [] \<longrightarrow>
      (\<exists>r entries lss.
         fetch e (cleanTerm term) = Inr r \<and> ok r \<and> body r = Inr (JArr entries) \<and>
         list_all2 (\<lambda>m ls. meaningDefs m = Inr ls \<and> length ls \<le> 2 \<and>
            (\<forall>l\<in>set ls.
               \<exists>ds d v t. getProp m ''definitions'' = Inr (Some (JArr ds)) \<and>
                 d \<in> set (take 2 ds) \<and>
                 getProp d ''definition'' = Inr (Some v) \<and> truthy (Some v) \<and>
                 toString v = Inr t \<and>
                 ((\<exists>w p. getProp m ''partOfSpeech'' = Inr (Some w) \<and> truthy (Some w) \<and>
                         toString w = Inr p \<and> l = ''('' @ p @ '') '' @ t) \<or>
                  (\<exists>pv. getProp m ''partOfSpeech'' = Inr pv \<and> \<not> truthy pv \<and>
                        l = ''(noun) '' @ t))))
           (concat (map meaningsOf entries)) lss \<and>
         rs = take 3 (concat lss)) \<and>
      (\<forall>l\<in>set rs. \<exists>p t. l = ''('' @ p @ '') '' @ t) \<and>
      (\<not> (isTauri e \<and> importCore e = Inr True \<and>
           (\<exists>ls. invoke e (trim term) = Inr (Some ls) \<and> ls \<noteq> [])) \<longrightarrow>
         fst (fetchDefinition e term) =
           Inr \<lparr>definitions = rs, source = Some Online, loading = False\<rparr>)) \<and>
    (getProp m ''partOfSpeech'' = Inr (Some (JStr p)) \<and> p \<noteq> [] \<and>
     getProp m ''definitions'' = Inr (Some (JArr ds)) \<and>
     list_all2 (\<lambda>d t. getProp d ''definition'' = Inr (Some (JStr t)) \<and> t \<noteq> []) ds ts \<longrightarrow>
       meaningDefs m = Inr (map (\<lambda>t. ''('' @ p @ '') '' @ t) (take 2 ts)) \<and>
       (\<forall>entries defs.
          parseDefs (JArr entries) = Inr defs \<and> m \<in> set (concat (map meaningsOf entries)) \<longrightarrow>
          set (map (\<lambda>t. ''('' @ p @ '') '' @ t) (take 2 ts)) \<subseteq> set defs))"
proof (intro conjI impI)
  show "length rs \<le> 3" by (rule online_length [OF assms])
next
  assume ne: "rs \<noteq> []"
  from online_result [OF assms ne] obtain r data defs where
    o: "fetch e (cleanTerm term) = Inr r" "ok r" "body r = Inr data"
       "parseDefs data = Inr defs" "rs = take 3 defs"
    by blast
  from o(5) ne have "defs \<noteq> []" by auto
  from parseDefs_fields [OF o(4) this] obtain entries lss where
    s: "data = JArr entries" "defs = concat lss"
       "list_all2 (\<lambda>m ls. meaningDefs m = Inr ls \<and> length ls \<le> 2 \<and>
            (\<forall>l\<in>set ls.
               \<exists>ds d v t. getProp m ''definitions'' = Inr (Some (JArr ds)) \<and>
                 d \<in> set (take 2 ds) \<and>
                 getProp d ''definition'' = Inr (Some v) \<and> truthy (Some v) \<and>
                 toString v = Inr t \<and>
                 ((\<exists>w p. getProp m ''partOfSpeech'' = Inr (Some w) \<and> truthy (Some w) \<and>
                         toString w = Inr p \<and> l = ''('' @ p @ '') '' @ t) \<or>
                  (\<exists>pv. getProp m ''partOfSpeech'' = Inr pv \<and> \<not> truthy pv \<and>
                        l = ''(noun) '' @ t))))
           (concat (map meaningsOf entries)) lss"
    by blast
  from o(1,2,3,5) s show "\<exists>r entries lss.
         fetch e (cleanTerm term) = Inr r \<and> ok r \<and> body r = Inr (JArr entries) \<and>
         list_all2 (\<lambda>m ls. meaningDefs m = Inr ls \<and> length ls \<le> 2 \<and>
            (\<forall>l\<in>set ls.
               \<exists>ds d v t. getProp m ''definitions'' = Inr (Some (JArr ds)) \<and>
                 d \<in> set (take 2 ds) \<and>
                 getProp d ''definition'' = Inr (Some v) \<and> truthy (Some v) \<and>
                 toString v = Inr t \<and>
                 ((\<exists>w p. getProp m ''partOfSpeech'' = Inr (Some w) \<and> truthy (Some w) \<and>
                         toString w = Inr p \<and> l = ''('' @ p @ '') '' @ t) \<or>
                  (\<exists>pv. getProp m ''partOfSpeech'' = Inr pv \<and> \<not> truthy pv \<and>
                        l = ''(noun) '' @ t))))
           (concat (map meaningsOf entries)) lss \<and>
         rs = take 3 (concat lss)"
    by blast
  have all: "\<forall>l\<in>set (concat lss). \<exists>p t. l = ''('' @ p @ '') '' @ t"
  proof
    fix l assume "l \<in> set (concat lss)"
    then obtain ls where ls: "ls \<in> set lss" "l \<in> set ls" by auto
    from ls(1) obtain i where i: "i < length lss" "lss ! i = ls"
      by (auto simp: in_set_conv_nth)
    let ?m = "concat (map meaningsOf entries) ! i"
    from s(3) i have "meaningDefs ?m = Inr ls"
      by (auto simp: list_all2_conv_all_nth)
    from meaningDefs_prefix [OF this] ls(2)
    show "\<exists>p t. l = ''('' @ p @ '') '' @ t" by blast
  qed
  show "\<forall>l\<in>set rs. \<exists>p t. l = ''('' @ p @ '') '' @ t"
  proof
    fix l assume "l \<in> set rs"
    then have "l \<in> set (concat lss)" unfolding o(5) s(2) by (rule in_set_takeD)
    with all show "\<exists>p t. l = ''('' @ p @ '') '' @ t" by (rule bspec)
  qed
next
  assume ne: "rs \<noteq> []"
  assume "\<not> (isTauri e \<and> importCore e = Inr True \<and>
           (\<exists>ls. invoke e (trim term) = Inr (Some ls) \<and> ls \<noteq> []))"
  then have "\<not> (isTauri e \<and> (\<exists>ls. fst (localLookup_try e term) = Inr (Some ls)))"
    by (auto simp: local_try_found)
  from fetchDefinition_remote [OF this] assms ne
  show "fst (fetchDefinition e term) =
           Inr \<lparr>definitions = rs, source = Some Online, loading = False\<rparr>"
    by simp
next
  assume h: "getProp m ''partOfSpeech'' = Inr (Some (JStr p)) \<and> p \<noteq> [] \<and>
     getProp m ''definitions'' = Inr (Some (JArr ds)) \<and>
     list_all2 (\<lambda>d t. getProp d ''definition'' = Inr (Some (JStr t)) \<and> t \<noteq> []) ds ts"
  then have h1: "getProp m ''partOfSpeech'' = Inr (Some (JStr p))" and h2: "p \<noteq> []"
    and h3: "getProp m ''definitions'' = Inr (Some (JArr ds))"
    and h4: "list_all2 (\<lambda>d t. getProp d ''definition'' = Inr (Some (JStr t)) \<and> t \<noteq> []) ds ts"
    by blast+
  have md: "meaningDefs m = Inr (map (\<lambda>t. ''('' @ p @ '') '' @ t) (take 2 ts))"
    by (rule meaningDefs_typed [OF h1 h2 h3 h4])
  then show "meaningDefs m = Inr (map (\<lambda>t. ''('' @ p @ '') '' @ t) (take 2 ts))" .
  show "\<forall>entries defs.
          parseDefs (JArr entries) = Inr defs \<and> m \<in> set (concat (map meaningsOf entries)) \<longrightarrow>
          set (map (\<lambda>t. ''('' @ p @ '') '' @ t) (take 2 ts)) \<subseteq> set defs"
  proof (intro allI impI)
    fix entries defs
    assume g: "parseDefs (JArr entries) = Inr defs \<and> m \<in> set (concat (map meaningsOf entries))"
    then have "forEach entryDefs entries = Inr defs" by (simp add: parseDefs_def)
    from entries_concat [OF this] obtain lss where
      l: "defs = concat lss"
         "list_all2 (\<lambda>m ls. meaningDefs m = Inr ls) (concat (map meaningsOf entries)) lss"
      by blast
    from g have "m \<in> set (concat (map meaningsOf entries))" by simp
    from contribution_included [OF l(2) this md]
    show "set (map (\<lambda>t. ''('' @ p @ '') '' @ t) (take 2 ts)) \<subseteq> set defs"
      unfolding l(1) .
  qed
qed

theorem remote_result_caps_witness:
  "fst (fetchOnlineDefinition (web_env go_response) ''Go!'') =
     Inr [''(verb) to move'', ''(verb) to leave'', ''(noun) a turn''] \<and>
   fst (fetchDefinition (web_env go_response) ''Go!'') =
     Inr \<lparr>definitions = [''(verb) to move'', ''(verb) to leave'', ''(noun) a turn''],
          source = Some Online, loading = False\<rparr> \<and>
   meaningDefs (JObj [(''partOfSpeech'', JStr ''verb''),
                      (''definitions'',
                       JArr [JObj [(''definition'', JStr ''to move'')],
                             JObj [(''definition'', JStr ''to leave'')],
                             JObj [(''definition'', JStr ''to work'')]])]) =
     Inr [''(verb) to move'', ''(verb) to leave'']"
proof -
  let ?m = "JObj [(''partOfSpeech'', JStr ''verb''),
                  (''definitions'',
                   JArr [JObj [(''definition'', JStr ''to move'')],
                         JObj [(''definition'', JStr ''to leave'')],
                         JObj [(''definition'', JStr ''to work'')]])]"
  let ?ds = "[JObj [(''definition'', JStr ''to move'')],
              JObj [(''definition'', JStr ''to leave'')],
              JObj [(''definition'', JStr ''to work'')]]"
  have c: "cleanTerm ''Go!'' = ''go''" by (simp add: norm_eval)
  have r: "\<not> rejected ''go''" by (simp add: rejected_def is_space_def)
  have h: "fst (fetchOnlineDefinition (web_env go_response) ''Go!'') =
     Inr [''(verb) to move'', ''(verb) to leave'', ''(noun) a turn'']"
    by (simp add: fetchOnlineDefinition_def fetchOnlineDefinition_try_def c r go_parse web_env_def)
  have w: "\<not> isTauri (web_env go_response)" by (simp add: web_env_def)
  have f: "getProp ?m ''partOfSpeech'' = Inr (Some (JStr ''verb'')) \<and> ''verb'' \<noteq> [] \<and>
     getProp ?m ''definitions'' = Inr (Some (JArr ?ds)) \<and>
     list_all2 (\<lambda>d t. getProp d ''definition'' = Inr (Some (JStr t)) \<and> t \<noteq> []) ?ds
       [''to move'', ''to leave'', ''to work'']"
    by simp
  show ?thesis
    using remote_result_caps [OF h, of ?m "''verb''" ?ds "[''to move'', ''to leave'', ''to work'']"]
      h w f
    by simp
qed



section \<open>Properties of the viewer\<close>

subsection \<open>Fragments\<close>

lemma restoreEdit_text:
  "textContent (restoreEdit (currentTab tabs tid) sid s) =
     (case editOf tabs tid sid of
        None \<Rightarrow> textContent s
      | Some txt \<Rightarrow> if txt \<noteq> [] then txt else textContent s)"
  by (simp add: restoreEdit_def editOf_def split: option.splits)

lemma applyFont_keeps:
  "textContent (applyFont c its idx s) = textContent s"
  "borderBottom (applyFont c its idx s) = borderBottom s"
  "frag_id (applyFont c its idx s) = frag_id s"
  by (simp_all add: applyFont_def split: option.splits)

lemma restoreEdit_frag_id: "frag_id (restoreEdit t sid s) = frag_id s"
  by (simp add: restoreEdit_def split: option.splits)

lemma processSpan_text:
  "textContent (processSpan c (currentTab tabs tid) pageNum its idx s) =
     (case editOf tabs tid (spanId pageNum idx) of
        None \<Rightarrow> textContent s
      | Some txt \<Rightarrow> if txt \<noteq> [] then txt else textContent s)"
  by (simp add: processSpan_def Let_def applyFont_keeps restoreEdit_text split: option.splits)

lemma processSpan_frag_id: "frag_id (processSpan c t pageNum its idx s) = spanId pageNum idx"
  by (simp add: processSpan_def Let_def applyFont_keeps restoreEdit_frag_id)

lemma processSpan_listeners:
  "listeners (processSpan c t pageNum its idx s) =
     (if isEditMode c
      then Some \<lparr>cl_tabId = tabId c, cl_spanId = spanId pageNum idx, cl_isDarkMode = isDarkMode c\<rparr>
      else listeners (applyFont c its idx (restoreEdit t (spanId pageNum idx) (s\<lparr>frag_id := spanId pageNum idx\<rparr>))))"
  by (simp add: processSpan_def Let_def)

text \<open>
  Claim C1, as the code has it. Deactivating a fragment whose text is empty (or blank)
  makes it transparent, colour and background, and persists nothing: the store is left
  exactly as it was, and so is the bottom border. The next render therefore shows the
  original content of a fragment that had no persisted edit, and shows the persisted text
  again on a fragment that had one.
\<close>

theorem blur_blank_keeps_store:
  assumes "listeners s = Some cl" and "trim (textContent s) = []"
  shows "snd (blur s tabs) = tabs \<and>
         color (fst (blur s tabs)) = ''transparent'' \<and>
         backgroundColor (fst (blur s tabs)) = ''transparent'' \<and>
         borderBottom (fst (blur s tabs)) = borderBottom s \<and>
         editOf (snd (blur s tabs)) tid sid = editOf tabs tid sid \<and>
         textContent (processSpan c (currentTab (snd (blur s tabs)) tid) pageNum its idx orig) =
           (case editOf tabs tid (spanId pageNum idx) of
              None \<Rightarrow> textContent orig
            | Some txt \<Rightarrow> if txt \<noteq> [] then txt else textContent orig)"
proof -
  have b: "blur s tabs =
      (s\<lparr>contentEditable := False, outline := ''none'', color := ''transparent'',
         backgroundColor := ''transparent''\<rparr>, tabs)"
    using assms by (simp add: blur_def)
  show ?thesis
    unfolding b by (simp add: processSpan_text)
qed

theorem blur_blank_keeps_store_witness:
  "snd (blur (typeText [] (click restored_span)) fresh_tabs) = fresh_tabs \<and>
   color (fst (blur (typeText [] (click restored_span)) fresh_tabs)) = ''transparent''"
proof -
  have l: "listeners (typeText [] (click restored_span)) =
        Some \<lparr>cl_tabId = ''t1'', cl_spanId = spanId 1 0, cl_isDarkMode = False\<rparr>"
    by (simp add: typeText_def click_def restored_span_def processSpan_def Let_def edit_cfg_def)
  have t: "trim (textContent (typeText [] (click restored_span))) = []"
    by (simp add: typeText_def click_def restored_span_def processSpan_def Let_def edit_cfg_def
        trim_def)
  show ?thesis
    using blur_blank_keeps_store [OF l t, of fresh_tabs] by simp
qed

text \<open>
  A fragment with the persisted edit \<open>''Howdy''\<close> is emptied and deactivated: the edit
  is still in the store, the dashed border is still on the fragment, and the next render
  shows \<open>''Howdy''\<close>, not the original \<open>''Hello''\<close>.
\<close>

theorem revert_counterexample:
  "textContent (typeText [] (click restored_span)) = [] \<and>
   editOf edited_tabs ''t1'' ''p1-s0'' = Some ''Howdy'' \<and>
   editOf (snd (blur (typeText [] (click restored_span)) edited_tabs)) ''t1'' ''p1-s0'' = Some ''Howdy'' \<and>
   borderBottom (fst (blur (typeText [] (click restored_span)) edited_tabs)) =
     ''1px dashed var(--accent-color)'' \<and>
   textContent (processSpan read_cfg
       (currentTab (snd (blur (typeText [] (click restored_span)) edited_tabs)) ''t1'')
       1 [] 0 (pdf_span ''Hello'')) = ''Howdy''"
  by code_simp

text \<open>A teardown while the document is loading is seen by the one check of the flag:
  nothing is cleared or appended.\<close>

lemma teardown_while_loading:
  "getDocument_ok pdf \<Longrightarrow>
   loadPdf c tabs pdf (Some (0, k)) (mounted old) =
     \<lparr>active = False, containerRef = (case k of Rerun \<Rightarrow> Some old | Unmount \<Rightarrow> None),
      events = [Teardown]\<rparr>"
  by (cases k) (simp_all add: loadPdf_def loadPdf_try_def cleanupAt_def runCleanup_def mounted_def Let_def)

text \<open>
  Claim C3, at a failing input. A document of two pages is rendered; the cleanup of the
  effect runs (a dependency changed) while page 2 is being fetched. The flag is read only
  once, after the document has loaded, so page 2 is appended after the teardown.
\<close>

theorem stale_append_after_teardown:
  "events (loadPdf edit_cfg fresh_tabs two_pages (Some (2, Rerun)) (mounted [])) =
     [Cleared, Appended 1, Teardown, Appended 2]"
  by code_simp

subsection \<open>The render loop\<close>

lemma cleanupAt_None [simp]: "cleanupAt None i v = v"
  by (simp add: cleanupAt_def)

lemma renderPage_throws:
  "fst (renderPage c t pdf k src v) \<noteq> None \<longleftrightarrow> hardFailure src"
  by (auto simp: renderPage_def hardFailure_def Let_def)

lemma renderPage_soft:
  assumes "\<not> hardFailure src" and "containerRef v = Some xs"
  shows "renderPage c t pdf k src v =
     (None, v\<lparr>containerRef := Some (xs @ fst (pageEffect c t pdf (k, src))),
              events := events v @ snd (pageEffect c t pdf (k, src))\<rparr>)"
  using assms
  by (auto simp: renderPage_def hardFailure_def Let_def appendChild_def updatePage_def
      pageEffect_def nodeOf_def)

lemma upt_shift: "[i..<i + Suc n] = i # [i + 1..<i + 1 + n]"
  by (simp add: upt_conv_Cons)

lemma renderPages_soft:
  assumes "\<forall>src\<in>set ps. \<not> hardFailure src" and "containerRef v = Some xs"
  shows "renderPages c t pdf None i ps v =
     (None, v\<lparr>containerRef :=
                 Some (xs @ concat (map (\<lambda>x. fst (pageEffect c t pdf x)) (zip [i..<i + length ps] ps))),
              events :=
                 events v @ concat (map (\<lambda>x. snd (pageEffect c t pdf x)) (zip [i..<i + length ps] ps))\<rparr>)"
  using assms
proof (induction ps arbitrary: i v xs)
  case Nil
  then show ?case by simp
next
  case (Cons src rest)
  from Cons.prems have soft: "\<not> hardFailure src" and rest: "\<forall>s\<in>set rest. \<not> hardFailure s"
    by simp_all
  let ?v1 = "v\<lparr>containerRef := Some (xs @ fst (pageEffect c t pdf (i, src))),
               events := events v @ snd (pageEffect c t pdf (i, src))\<rparr>"
  have c1: "containerRef ?v1 = Some (xs @ fst (pageEffect c t pdf (i, src)))" by simp
  have z: "zip [i..<i + length (src # rest)] (src # rest) =
             (i, src) # zip [i + 1..<i + 1 + length rest] rest"
    using upt_shift [of i "length rest"] by simp
  show ?case
    unfolding z
    by (simp add: renderPage_soft [OF soft Cons.prems(2)] Cons.IH [OF rest c1])
qed

lemma renderPages_throws:
  assumes "\<forall>src\<in>set pre. \<not> hardFailure src" and "hardFailure bad"
  shows "fst (renderPages c t pdf sch i (pre @ bad # post) v) \<noteq> None"
  using assms(1)
proof (induction pre arbitrary: i v)
  case Nil
  obtain e v1 where r: "renderPage c t pdf i bad (cleanupAt sch i v) = (e, v1)"
    by (cases "renderPage c t pdf i bad (cleanupAt sch i v)")
  with renderPage_throws [of c t pdf i bad "cleanupAt sch i v"] assms(2)
  obtain x where "e = Some x" by (cases e) auto
  with r show ?case by simp
next
  case (Cons src pre)
  obtain e v1 where r: "renderPage c t pdf i src (cleanupAt sch i v) = (e, v1)"
    by (cases "renderPage c t pdf i src (cleanupAt sch i v)")
  with renderPage_throws [of c t pdf i src "cleanupAt sch i v"] Cons.prems
  have e: "e = None" by simp
  have "fst (renderPages c t pdf sch (i + 1) (pre @ bad # post) v1) \<noteq> None"
    using Cons.IH [of "i + 1" v1] Cons.prems by simp
  then show ?case using r e by simp
qed

lemma renderPages_abort:
  assumes "\<forall>src\<in>set pre. \<not> hardFailure src" and "hardFailure bad"
  shows "renderPages c t pdf sch i (pre @ bad # post) v = renderPages c t pdf sch i (pre @ [bad]) v"
  using assms(1)
proof (induction pre arbitrary: i v)
  case Nil
  obtain e v1 where r: "renderPage c t pdf i bad (cleanupAt sch i v) = (e, v1)"
    by (cases "renderPage c t pdf i bad (cleanupAt sch i v)")
  with renderPage_throws [of c t pdf i bad "cleanupAt sch i v"] assms(2)
  obtain x where "e = Some x" by (cases e) auto
  with r show ?case by simp
next
  case (Cons src pre)
  obtain e v1 where r: "renderPage c t pdf i src (cleanupAt sch i v) = (e, v1)"
    by (cases "renderPage c t pdf i src (cleanupAt sch i v)")
  with renderPage_throws [of c t pdf i src "cleanupAt sch i v"] Cons.prems
  have e: "e = None" by simp
  have "renderPages c t pdf sch (i + 1) (pre @ bad # post) v1 =
        renderPages c t pdf sch (i + 1) (pre @ [bad]) v1"
    using Cons.IH [of "i + 1" v1] Cons.prems by simp
  then show ?case using r e by simp
qed

lemma loadPdf_soft:
  assumes "getDocument_ok pdf" and "\<forall>src\<in>set (pages pdf). \<not> hardFailure src"
  shows "loadPdf c tabs pdf None (mounted old) =
     \<lparr>active = True,
      containerRef = Some (concat (map (\<lambda>x. fst (pageEffect c (currentTab tabs (tabId c)) pdf x))
                                    (zip [1..<1 + length (pages pdf)] (pages pdf)))),
      events = Cleared #
               concat (map (\<lambda>x. snd (pageEffect c (currentTab tabs (tabId c)) pdf x))
                        (zip [1..<1 + length (pages pdf)] (pages pdf)))
               @ (case currentTab tabs (tabId c) of
                    None \<Rightarrow> []
                  | Some tb \<Rightarrow> if scrollPosition tb \<noteq> None then [ScrollRestore] else [])\<rparr>"
proof -
  let ?v = "(mounted old)\<lparr>containerRef := Some [], events := events (mounted old) @ [Cleared]\<rparr>"
  have c: "containerRef ?v = Some []" by simp
  show ?thesis
    using assms(1)
    by (simp add: loadPdf_def loadPdf_try_def mounted_def
        renderPages_soft [OF assms(2) c, unfolded mounted_def, simplified]
        split: option.splits)
qed

lemma loadPdf_abort:
  assumes "pages pdf = pre @ bad # post" and "\<forall>src\<in>set pre. \<not> hardFailure src"
    and "hardFailure bad"
  shows "loadPdf c tabs pdf None (mounted old) =
           loadPdf c tabs (pdf\<lparr>pages := pre @ [bad]\<rparr>) None (mounted old)"
proof -
  have rp: "\<And>k src v. renderPage c (currentTab tabs (tabId c)) (pdf\<lparr>pages := pre @ [bad]\<rparr>) k src v =
                 renderPage c (currentTab tabs (tabId c)) pdf k src v"
    by (simp add: renderPage_def Let_def)
  have rs: "\<And>ps i v. renderPages c (currentTab tabs (tabId c)) (pdf\<lparr>pages := pre @ [bad]\<rparr>) None i ps v =
                 renderPages c (currentTab tabs (tabId c)) pdf None i ps v"
  proof -
    fix ps i v
    show "renderPages c (currentTab tabs (tabId c)) (pdf\<lparr>pages := pre @ [bad]\<rparr>) None i ps v =
                 renderPages c (currentTab tabs (tabId c)) pdf None i ps v"
      by (induction ps arbitrary: i v) (simp_all add: rp split: prod.splits option.splits)
  qed
  let ?v = "(mounted old)\<lparr>containerRef := Some [], events := events (mounted old) @ [Cleared]\<rparr>"
  have "renderPages c (currentTab tabs (tabId c)) pdf None 1 (pages pdf) ?v =
        renderPages c (currentTab tabs (tabId c)) pdf None 1 (pre @ [bad]) ?v"
    unfolding assms(1) by (rule renderPages_abort [OF assms(2,3)])
  then have "loadPdf_try c tabs pdf None (mounted old) =
        loadPdf_try c tabs (pdf\<lparr>pages := pre @ [bad]\<rparr>) None (mounted old)"
    by (simp add: loadPdf_try_def Let_def mounted_def rs)
  then show ?thesis
    by (simp add: loadPdf_def)
qed

lemma loadPdf_abort_logged:
  assumes "getDocument_ok pdf" and "pages pdf = pre @ bad # post"
    and "\<forall>src\<in>set pre. \<not> hardFailure src" and "hardFailure bad"
  shows "\<exists>e. last (events (loadPdf c tabs pdf None (mounted old))) = ErrorLogged e"
proof -
  let ?v = "(mounted old)\<lparr>containerRef := Some [], events := events (mounted old) @ [Cleared]\<rparr>"
  obtain r v1 where rv: "renderPages c (currentTab tabs (tabId c)) pdf None 1 (pre @ bad # post) ?v = (r, v1)"
    by (cases "renderPages c (currentTab tabs (tabId c)) pdf None 1 (pre @ bad # post) ?v")
  with renderPages_throws [OF assms(3,4), of c "currentTab tabs (tabId c)" pdf None 1 post ?v]
  obtain e where "r = Some e" by (cases r) auto
  with rv assms(1,2) show ?thesis
    by (simp add: loadPdf_def loadPdf_try_def mounted_def)
qed

lemma processSpans_ids:
  "map frag_id (processSpans c t k its lay) = map (spanId k) [0..<length lay]"
  by (rule nth_equalityI) (simp_all add: processSpans_def processSpan_frag_id)

lemma processSpans_nth:
  "idx < length lay \<Longrightarrow> processSpans c t k its lay ! idx = processSpan c t k its idx (lay ! idx)"
  by (simp add: processSpans_def)

lemma renderPage_hard:
  assumes "hardFailure src" and "containerRef v = Some xs"
  shows "renderPage c t pdf k src v =
     (Some (failError src),
      v\<lparr>containerRef := Some (xs @ fst (failEffect c k src)),
        events := events v @ snd (failEffect c k src)\<rparr>)"
  using assms
  by (auto simp: renderPage_def hardFailure_def Let_def appendChild_def updatePage_def
      failEffect_def failError_def)

lemma renderPages_hard:
  assumes "\<forall>src\<in>set pre. \<not> hardFailure src" and "hardFailure bad" and "containerRef v = Some xs"
  shows "renderPages c t pdf None i (pre @ [bad]) v =
     (Some (failError bad),
      v\<lparr>containerRef :=
          Some (xs @ concat (map (\<lambda>x. fst (pageEffect c t pdf x)) (zip [i..<i + length pre] pre))
                   @ fst (failEffect c (i + length pre) bad)),
        events :=
          events v @ concat (map (\<lambda>x. snd (pageEffect c t pdf x)) (zip [i..<i + length pre] pre))
                   @ snd (failEffect c (i + length pre) bad)\<rparr>)"
  using assms(1,3)
proof (induction pre arbitrary: i v xs)
  case Nil
  then show ?case by (simp add: renderPage_hard [OF assms(2)])
next
  case (Cons src rest)
  from Cons.prems have soft: "\<not> hardFailure src" and rest: "\<forall>s\<in>set rest. \<not> hardFailure s"
    by simp_all
  let ?v1 = "v\<lparr>containerRef := Some (xs @ fst (pageEffect c t pdf (i, src))),
               events := events v @ snd (pageEffect c t pdf (i, src))\<rparr>"
  have c1: "containerRef ?v1 = Some (xs @ fst (pageEffect c t pdf (i, src)))" by simp
  have z: "zip [i..<i + length (src # rest)] (src # rest) =
             (i, src) # zip [i + 1..<i + 1 + length rest] rest"
    using upt_shift [of i "length rest"] by simp
  show ?case
    unfolding z
    by (simp add: renderPage_soft [OF soft Cons.prems(2)] Cons.IH [OF rest c1])
qed

lemma pageEffect_ids:
  "\<not> hardFailure (snd x) \<Longrightarrow>
   map (\<lambda>n. (page_no n, map frag_id (spans n))) (fst (pageEffect c t pdf x)) = pageIds pdf x"
  by (cases x)
     (auto simp: pageEffect_def pageIds_def nodeOf_def hardFailure_def processSpans_ids)

lemma failEffect_ids:
  "hardFailure src \<Longrightarrow>
   map (\<lambda>n. (page_no n, map frag_id (spans n))) (fst (failEffect c k src)) = pageIds pdf (k, src)"
  by (auto simp: failEffect_def pageIds_def hardFailure_def)

lemma concat_ids:
  assumes "\<forall>x\<in>set zs. \<not> hardFailure (snd x)"
  shows "map (\<lambda>n. (page_no n, map frag_id (spans n)))
           (concat (map (\<lambda>x. fst (pageEffect c t pdf x)) zs)) = concat (map (pageIds pdf) zs)"
  using assms by (induction zs) (simp_all add: pageEffect_ids)

lemma zip_soft:
  "\<forall>src\<in>set ps. \<not> hardFailure src \<Longrightarrow> \<forall>x\<in>set (zip ks ps). \<not> hardFailure (snd x)"
  by (auto dest: set_zip_rightD)

lemma loadPdf_ids:
  assumes "getDocument_ok pdf"
  shows "fragmentIds (loadPdf c tabs pdf None (mounted old)) =
           Some (concat (map (pageIds pdf)
                  (zip [1..<1 + length (rendered (pages pdf))] (rendered (pages pdf)))))"
proof (cases "\<forall>src\<in>set (pages pdf). \<not> hardFailure src")
  case True
  from True have tw: "takeWhile (\<lambda>src. \<not> hardFailure src) (pages pdf) = pages pdf"
    by (simp add: takeWhile_eq_all_conv)
  from True have dw: "dropWhile (\<lambda>src. \<not> hardFailure src) (pages pdf) = []"
    by simp
  have r: "rendered (pages pdf) = pages pdf"
    unfolding rendered_def tw dw by simp
  show ?thesis
    unfolding r loadPdf_soft [OF assms True]
    by (simp add: fragmentIds_def concat_ids [OF zip_soft [OF True]])
next
  case False
  then have "\<exists>x\<in>set (pages pdf). hardFailure x" by simp
  from split_list_first_prop [OF this] obtain pre bad post where
    sp: "pages pdf = pre @ bad # post" and bad: "hardFailure bad"
    and pre: "\<forall>src\<in>set pre. \<not> hardFailure src"
    by blast
  have tw: "takeWhile (\<lambda>src. \<not> hardFailure src) (pre @ bad # post) = pre"
    using pre bad by (simp add: takeWhile_append2)
  have dw: "dropWhile (\<lambda>src. \<not> hardFailure src) (pre @ bad # post) = bad # post"
    using pre bad by (simp add: dropWhile_append2)
  have r: "rendered (pages pdf) = pre @ [bad]"
    unfolding sp rendered_def tw dw by simp
  let ?t = "currentTab tabs (tabId c)"
  let ?v = "(mounted old)\<lparr>containerRef := Some [], events := events (mounted old) @ [Cleared]\<rparr>"
  have c: "containerRef ?v = Some []" by simp
  have rp: "renderPages c ?t pdf None 1 (pages pdf) ?v = renderPages c ?t pdf None 1 (pre @ [bad]) ?v"
    unfolding sp by (rule renderPages_abort [OF pre bad])
  have "containerRef (loadPdf c tabs pdf None (mounted old)) =
      Some (concat (map (\<lambda>x. fst (pageEffect c ?t pdf x)) (zip [1..<1 + length pre] pre))
            @ fst (failEffect c (1 + length pre) bad))"
    using assms
    by (simp add: loadPdf_def loadPdf_try_def Let_def mounted_def
        rp [unfolded mounted_def, simplified]
        renderPages_hard [OF pre bad c, unfolded mounted_def, simplified])
  moreover have "zip [1..<1 + length (pre @ [bad])] (pre @ [bad]) =
      zip [1..<1 + length pre] pre @ [(1 + length pre, bad)]"
  proof -
    have "[1..<1 + length (pre @ [bad])] = [1..<1 + length pre] @ [1 + length pre]"
      by simp
    then have "zip [1..<1 + length (pre @ [bad])] (pre @ [bad]) =
        zip ([1..<1 + length pre] @ [1 + length pre]) (pre @ [bad])"
      by (rule arg_cong)
    also have "\<dots> = zip [1..<1 + length pre] pre @ zip [1 + length pre] [bad]"
      by (rule zip_append) (simp only: length_upt add_diff_cancel_left')
    finally show ?thesis by simp
  qed
  ultimately show ?thesis
    unfolding r
    by (simp add: fragmentIds_def concat_ids [OF zip_soft [OF pre]] failEffect_ids [OF bad])
qed

lemma processSpans_listeners:
  "isEditMode c \<Longrightarrow>
   map listeners (processSpans c t k its lay) =
     map (\<lambda>i. Some \<lparr>cl_tabId = tabId c, cl_spanId = spanId k i, cl_isDarkMode = isDarkMode c\<rparr>)
       [0..<length lay]"
  by (rule nth_equalityI) (simp_all add: processSpans_def processSpan_listeners)

text \<open>
  Claim C9. Two runs over the same document put the same fragment identifiers on
  display, whatever the settings (edit mode, colour scheme, font mapping), the store and
  the previous content of the container of each run. The identifiers of the fragments of
  a page are \<open>p\<close>, the page number, \<open>-s\<close> and the zero-based position of the
  fragment, in the order of the text layer; in edit mode the listeners of a fragment
  have captured this same identifier.
\<close>

theorem fragment_ids_deterministic:
  assumes "getDocument_ok pdf"
  shows "fragmentIds (loadPdf c1 tabs1 pdf None (mounted old1)) =
           fragmentIds (loadPdf c2 tabs2 pdf None (mounted old2)) \<and>
         map frag_id (processSpans c1 t1 k its1 lay) = map frag_id (processSpans c2 t2 k its2 lay) \<and>
         map frag_id (processSpans c1 t1 k its1 lay) =
           map (\<lambda>i. ''p'' @ showNat k @ ''-s'' @ showNat i) [0..<length lay] \<and>
         (isEditMode c1 \<longrightarrow>
            map (map_option cl_spanId) (map listeners (processSpans c1 t1 k its1 lay)) =
              map Some (map frag_id (processSpans c1 t1 k its1 lay)))"
proof -
  have "map (spanId k) [0..<length lay] =
        map (\<lambda>i. ''p'' @ showNat k @ ''-s'' @ showNat i) [0..<length lay]"
    by (simp add: spanId_def)
  then show ?thesis
    by (simp add: loadPdf_ids [OF assms] processSpans_ids processSpans_listeners comp_def)
qed

theorem fragment_ids_deterministic_witness:
  "fragmentIds (loadPdf edit_cfg fresh_tabs two_pages None (mounted [])) =
     fragmentIds (loadPdf read_cfg edited_tabs two_pages None (mounted [])) \<and>
   fragmentIds (loadPdf edit_cfg fresh_tabs two_pages None (mounted [])) =
     Some [(1, [''p1-s0'', ''p1-s1'']), (2, [''p2-s0''])]"
proof -
  have g: "getDocument_ok two_pages" by (simp add: two_pages_def)
  have e: "fragmentIds (loadPdf edit_cfg fresh_tabs two_pages None (mounted [])) =
     Some [(1, [''p1-s0'', ''p1-s1'']), (2, [''p2-s0''])]"
    by code_simp
  show ?thesis
    using fragment_ids_deterministic [OF g, of edit_cfg fresh_tabs "[]" read_cfg edited_tabs "[]"] e
    by simp
qed

lemma pageEffect_nodes:
  "concat (map (\<lambda>x. fst (pageEffect c t pdf x)) zs) =
     map (\<lambda>x. nodeOf c t pdf (fst x) (snd x)) (filter (\<lambda>x. context_ok (snd x)) zs)"
  by (induction zs) (auto simp: pageEffect_def)

lemma pageEffect_no_error:
  "ErrorLogged e \<notin> set (concat (map (\<lambda>x. snd (pageEffect c t pdf x)) zs))"
  by (induction zs) (auto simp: pageEffect_def split: if_splits)

lemma loadPdf_hard:
  assumes "getDocument_ok pdf" and "pages pdf = pre @ bad # post"
    and "\<forall>src\<in>set pre. \<not> hardFailure src" and "hardFailure bad"
  shows "loadPdf c tabs pdf None (mounted old) =
     \<lparr>active = True,
      containerRef =
        Some (concat (map (\<lambda>x. fst (pageEffect c (currentTab tabs (tabId c)) pdf x))
                       (zip [1..<1 + length pre] pre))
              @ fst (failEffect c (1 + length pre) bad)),
      events =
        (Cleared #
         concat (map (\<lambda>x. snd (pageEffect c (currentTab tabs (tabId c)) pdf x))
                  (zip [1..<1 + length pre] pre))
         @ snd (failEffect c (1 + length pre) bad)) @ [ErrorLogged (failError bad)]\<rparr>"
proof -
  let ?t = "currentTab tabs (tabId c)"
  let ?v = "(mounted old)\<lparr>containerRef := Some [], events := events (mounted old) @ [Cleared]\<rparr>"
  have c: "containerRef ?v = Some []" by simp
  have rp: "renderPages c ?t pdf None 1 (pages pdf) ?v = renderPages c ?t pdf None 1 (pre @ [bad]) ?v"
    unfolding assms(2) by (rule renderPages_abort [OF assms(3,4)])
  show ?thesis
    using assms(1)
    by (simp add: loadPdf_def loadPdf_try_def Let_def mounted_def
        rp [unfolded mounted_def, simplified]
        renderPages_hard [OF assms(3,4) c, unfolded mounted_def, simplified])
qed

text \<open>
  Claim C2, as the code has it. When no page fails hard, every page that has a 2D context
  is appended, in order and rasterised, whether or not its text layer could be built (a
  page without text layer has no fragments); a failing text layer is logged as a warning
  and nothing is logged as an error. When a page fails hard (it cannot be fetched,
  rasterised or read), the run is the run of the document cut after that page: the pages
  before it stay in the container exactly as a run over them alone leaves them, the
  failing page itself stays as far as it got (appended once fetched, rasterised or not),
  the pages after it are not rendered, and the failure is logged once, as the last event,
  by the handler of \<^verbatim>\<open>loadPdf\<close>.
\<close>

theorem page_failures:
  assumes "getDocument_ok pdf"
  shows "((\<forall>src\<in>set (pages pdf). \<not> hardFailure src) \<longrightarrow>
            (\<exists>nodes. containerRef (loadPdf c tabs pdf None (mounted old)) = Some nodes \<and>
               map page_no nodes =
                 map fst (filter (\<lambda>x. context_ok (snd x)) (zip [1..<1 + length (pages pdf)] (pages pdf)))) \<and>
            containerRef (loadPdf c tabs pdf None (mounted old)) =
              Some (map (\<lambda>x. \<lparr>page_no = fst x, editClass = isEditMode c, rasterized = True,
                        spans = (if hasTextLayer pdf \<and> textLayer_ok (snd x)
                                 then processSpans c (currentTab tabs (tabId c)) (fst x)
                                        (items (snd x)) (layer (snd x))
                                 else [])\<rparr>)
                      (filter (\<lambda>x. context_ok (snd x))
                         (zip [1..<1 + length (pages pdf)] (pages pdf)))) \<and>
            (\<forall>e. ErrorLogged e \<notin> set (events (loadPdf c tabs pdf None (mounted old)))) \<and>
            (hasTextLayer pdf \<and> (\<exists>src\<in>set (pages pdf). context_ok src \<and> \<not> textLayer_ok src) \<longrightarrow>
               Warned TextLayerFailed \<in> set (events (loadPdf c tabs pdf None (mounted old))))) \<and>
         (\<forall>pre bad post.
            pages pdf = pre @ bad # post \<and> (\<forall>src\<in>set pre. \<not> hardFailure src) \<and> hardFailure bad \<longrightarrow>
            loadPdf c tabs pdf None (mounted old) =
              loadPdf c tabs (pdf\<lparr>pages := pre @ [bad]\<rparr>) None (mounted old) \<and>
            (\<exists>e. last (events (loadPdf c tabs pdf None (mounted old))) = ErrorLogged e) \<and>
            containerRef (loadPdf c tabs (pdf\<lparr>pages := pre\<rparr>) None (mounted old)) =
              Some (map (\<lambda>x. \<lparr>page_no = fst x, editClass = isEditMode c, rasterized = True,
                        spans = (if hasTextLayer pdf \<and> textLayer_ok (snd x)
                                 then processSpans c (currentTab tabs (tabId c)) (fst x)
                                        (items (snd x)) (layer (snd x))
                                 else [])\<rparr>)
                      (filter (\<lambda>x. context_ok (snd x)) (zip [1..<1 + length pre] pre))) \<and>
            containerRef (loadPdf c tabs pdf None (mounted old)) =
              Some (map (\<lambda>x. \<lparr>page_no = fst x, editClass = isEditMode c, rasterized = True,
                        spans = (if hasTextLayer pdf \<and> textLayer_ok (snd x)
                                 then processSpans c (currentTab tabs (tabId c)) (fst x)
                                        (items (snd x)) (layer (snd x))
                                 else [])\<rparr>)
                      (filter (\<lambda>x. context_ok (snd x)) (zip [1..<1 + length pre] pre))
                    @ (if getPage_ok bad
                       then [\<lparr>page_no = 1 + length pre, editClass = isEditMode c,
                              rasterized = render_ok bad, spans = []\<rparr>]
                       else [])) \<and>
            (\<exists>evs. events (loadPdf c tabs pdf None (mounted old)) =
                     evs @ [ErrorLogged (if \<not> getPage_ok bad then GetPageFailed
                               else if \<not> render_ok bad then RenderFailed
                               else GetTextContentFailed)] \<and>
                   (\<forall>e. ErrorLogged e \<notin> set evs)))"
proof (intro conjI impI)
  assume soft: "\<forall>src\<in>set (pages pdf). \<not> hardFailure src"
  let ?t = "currentTab tabs (tabId c)"
  let ?zs = "zip [1..<1 + length (pages pdf)] (pages pdf)"
  have nos: "map page_no (concat (map (\<lambda>x. fst (pageEffect c ?t pdf x)) zs)) =
             map fst (filter (\<lambda>x. context_ok (snd x)) zs)" for zs
    by (induction zs) (auto simp: pageEffect_def nodeOf_def)
  show "\<exists>nodes. containerRef (loadPdf c tabs pdf None (mounted old)) = Some nodes \<and>
               map page_no nodes = map fst (filter (\<lambda>x. context_ok (snd x)) ?zs)"
    unfolding loadPdf_soft [OF assms soft] by (simp add: nos)
  show "containerRef (loadPdf c tabs pdf None (mounted old)) =
              Some (map (\<lambda>x. \<lparr>page_no = fst x, editClass = isEditMode c, rasterized = True,
                        spans = (if hasTextLayer pdf \<and> textLayer_ok (snd x)
                                 then processSpans c (currentTab tabs (tabId c)) (fst x)
                                        (items (snd x)) (layer (snd x))
                                 else [])\<rparr>)
                      (filter (\<lambda>x. context_ok (snd x))
                         (zip [1..<1 + length (pages pdf)] (pages pdf))))"
    unfolding loadPdf_soft [OF assms soft] by (simp add: pageEffect_nodes nodeOf_def)
  have noerr: "ErrorLogged e \<notin> set (concat (map (\<lambda>x. snd (pageEffect c ?t pdf x)) zs))" for zs e
    by (induction zs) (auto simp: pageEffect_def split: if_splits)
  show "\<forall>e. ErrorLogged e \<notin> set (events (loadPdf c tabs pdf None (mounted old)))"
    unfolding loadPdf_soft [OF assms soft] using noerr
    by (auto split: option.splits if_splits)
  show "Warned TextLayerFailed \<in> set (events (loadPdf c tabs pdf None (mounted old)))"
    if h: "hasTextLayer pdf \<and> (\<exists>src\<in>set (pages pdf). context_ok src \<and> \<not> textLayer_ok src)"
  proof -
    from h obtain src where src: "src \<in> set (pages pdf)" "context_ok src" "\<not> textLayer_ok src"
      by blast
    from src(1) obtain j where j: "j < length (pages pdf)" "pages pdf ! j = src"
      by (auto simp: in_set_conv_nth)
    have n: "[1..<1 + length (pages pdf)] ! j = 1 + j"
      by (rule nth_upt) (use j(1) in simp)
    have l: "j < length [1..<1 + length (pages pdf)]"
      using j(1) by (simp only: length_upt add_diff_cancel_left')
    have m: "(1 + j, src) \<in> set ?zs"
      unfolding in_set_zip using n l j by (intro exI [of _ j]) (simp only: fst_conv snd_conv simp_thms)
    have w: "Warned TextLayerFailed \<in> set (snd (pageEffect c ?t pdf (1 + j, src)))"
      using h src by (simp add: pageEffect_def)
    have "snd (pageEffect c ?t pdf (1 + j, src)) \<in> set (map (\<lambda>x. snd (pageEffect c ?t pdf x)) ?zs)"
      unfolding set_map using m by (rule imageI)
    with w have "Warned TextLayerFailed \<in>
        set (concat (map (\<lambda>x. snd (pageEffect c ?t pdf x)) ?zs))"
      unfolding set_concat by blast
    then show ?thesis
      unfolding loadPdf_soft [OF assms soft] by (simp only: viewer.simps set_simps set_append) blast
  qed
next
  show "\<forall>pre bad post.
            pages pdf = pre @ bad # post \<and> (\<forall>src\<in>set pre. \<not> hardFailure src) \<and> hardFailure bad \<longrightarrow>
            loadPdf c tabs pdf None (mounted old) =
              loadPdf c tabs (pdf\<lparr>pages := pre @ [bad]\<rparr>) None (mounted old) \<and>
            (\<exists>e. last (events (loadPdf c tabs pdf None (mounted old))) = ErrorLogged e) \<and>
            containerRef (loadPdf c tabs (pdf\<lparr>pages := pre\<rparr>) None (mounted old)) =
              Some (map (\<lambda>x. \<lparr>page_no = fst x, editClass = isEditMode c, rasterized = True,
                        spans = (if hasTextLayer pdf \<and> textLayer_ok (snd x)
                                 then processSpans c (currentTab tabs (tabId c)) (fst x)
                                        (items (snd x)) (layer (snd x))
                                 else [])\<rparr>)
                      (filter (\<lambda>x. context_ok (snd x)) (zip [1..<1 + length pre] pre))) \<and>
            containerRef (loadPdf c tabs pdf None (mounted old)) =
              Some (map (\<lambda>x. \<lparr>page_no = fst x, editClass = isEditMode c, rasterized = True,
                        spans = (if hasTextLayer pdf \<and> textLayer_ok (snd x)
                                 then processSpans c (currentTab tabs (tabId c)) (fst x)
                                        (items (snd x)) (layer (snd x))
                                 else [])\<rparr>)
                      (filter (\<lambda>x. context_ok (snd x)) (zip [1..<1 + length pre] pre))
                    @ (if getPage_ok bad
                       then [\<lparr>page_no = 1 + length pre, editClass = isEditMode c,
                              rasterized = render_ok bad, spans = []\<rparr>]
                       else [])) \<and>
            (\<exists>evs. events (loadPdf c tabs pdf None (mounted old)) =
                     evs @ [ErrorLogged (if \<not> getPage_ok bad then GetPageFailed
                               else if \<not> render_ok bad then RenderFailed
                               else GetTextContentFailed)] \<and>
                   (\<forall>e. ErrorLogged e \<notin> set evs))"
  proof (intro allI impI conjI)
    fix pre bad post
    assume h: "pages pdf = pre @ bad # post \<and> (\<forall>src\<in>set pre. \<not> hardFailure src) \<and> hardFailure bad"
    then have h1: "pages pdf = pre @ bad # post" and h2: "\<forall>src\<in>set pre. \<not> hardFailure src"
      and h3: "hardFailure bad"
      by blast+
    show "loadPdf c tabs pdf None (mounted old) =
              loadPdf c tabs (pdf\<lparr>pages := pre @ [bad]\<rparr>) None (mounted old)"
      by (rule loadPdf_abort [OF h1 h2 h3])
    show "\<exists>e. last (events (loadPdf c tabs pdf None (mounted old))) = ErrorLogged e"
      by (rule loadPdf_abort_logged [OF assms h1 h2 h3])
    have g': "getDocument_ok (pdf\<lparr>pages := pre\<rparr>)"
      using assms by simp
    have s': "\<forall>src\<in>set (pages (pdf\<lparr>pages := pre\<rparr>)). \<not> hardFailure src"
      using h2 by simp
    show "containerRef (loadPdf c tabs (pdf\<lparr>pages := pre\<rparr>) None (mounted old)) =
              Some (map (\<lambda>x. \<lparr>page_no = fst x, editClass = isEditMode c, rasterized = True,
                        spans = (if hasTextLayer pdf \<and> textLayer_ok (snd x)
                                 then processSpans c (currentTab tabs (tabId c)) (fst x)
                                        (items (snd x)) (layer (snd x))
                                 else [])\<rparr>)
                      (filter (\<lambda>x. context_ok (snd x)) (zip [1..<1 + length pre] pre)))"
      unfolding loadPdf_soft [OF g' s'] by (simp add: pageEffect_nodes nodeOf_def)
    show "containerRef (loadPdf c tabs pdf None (mounted old)) =
              Some (map (\<lambda>x. \<lparr>page_no = fst x, editClass = isEditMode c, rasterized = True,
                        spans = (if hasTextLayer pdf \<and> textLayer_ok (snd x)
                                 then processSpans c (currentTab tabs (tabId c)) (fst x)
                                        (items (snd x)) (layer (snd x))
                                 else [])\<rparr>)
                      (filter (\<lambda>x. context_ok (snd x)) (zip [1..<1 + length pre] pre))
                    @ (if getPage_ok bad
                       then [\<lparr>page_no = 1 + length pre, editClass = isEditMode c,
                              rasterized = render_ok bad, spans = []\<rparr>]
                       else []))"
      unfolding loadPdf_hard [OF assms h1 h2 h3]
      by (simp add: pageEffect_nodes nodeOf_def failEffect_def)
    show "\<exists>evs. events (loadPdf c tabs pdf None (mounted old)) =
                     evs @ [ErrorLogged (if \<not> getPage_ok bad then GetPageFailed
                               else if \<not> render_ok bad then RenderFailed
                               else GetTextContentFailed)] \<and>
                   (\<forall>e. ErrorLogged e \<notin> set evs)"
      unfolding loadPdf_hard [OF assms h1 h2 h3]
      using pageEffect_no_error [of _ c "currentTab tabs (tabId c)" pdf "zip [1..<1 + length pre] pre"]
      by (auto simp: failError_def failEffect_def)
  qed
qed

text \<open>
  Page 1 of a document of two pages cannot be fetched: the error is logged and page 2,
  which is sound, is never rendered.
\<close>

theorem sibling_pages_counterexample:
  "loadPdf edit_cfg fresh_tabs broken_first None (mounted []) =
     \<lparr>active = True, containerRef = Some [], events = [Cleared, ErrorLogged GetPageFailed]\<rparr>"
  by code_simp

theorem page_failures_witness:
  "Warned TextLayerFailed \<in> set (events (loadPdf edit_cfg fresh_tabs soft_failing None (mounted []))) \<and>
   loadPdf edit_cfg fresh_tabs broken_first None (mounted []) =
     loadPdf edit_cfg fresh_tabs (broken_first\<lparr>pages := [] @ [(good_page [''Hello''])\<lparr>getPage_ok := False\<rparr>]\<rparr>)
       None (mounted []) \<and>
   map_option (map page_no) (containerRef (loadPdf edit_cfg fresh_tabs broken_render None (mounted []))) =
     Some [1, 2] \<and>
   map_option (map rasterized) (containerRef (loadPdf edit_cfg fresh_tabs broken_render None (mounted []))) =
     Some [True, False]"
proof -
  have g: "getDocument_ok broken_first" by (simp add: broken_first_def)
  have p: "pages broken_first = [] @ (good_page [''Hello''])\<lparr>getPage_ok := False\<rparr> # [good_page [''Bye'']]"
    by (simp add: broken_first_def)
  have b: "hardFailure ((good_page [''Hello''])\<lparr>getPage_ok := False\<rparr>)"
    by (simp add: hardFailure_def)
  have g2: "getDocument_ok soft_failing" by (simp add: soft_failing_def)
  have s: "\<forall>src\<in>set (pages soft_failing). \<not> hardFailure src"
    by (simp add: soft_failing_def hardFailure_def good_page_def)
  have t: "hasTextLayer soft_failing \<and>
           (\<exists>src\<in>set (pages soft_failing). context_ok src \<and> \<not> textLayer_ok src)"
    by (simp add: soft_failing_def good_page_def)
  have 1: "Warned TextLayerFailed \<in> set (events (loadPdf edit_cfg fresh_tabs soft_failing None (mounted [])))"
    using page_failures [OF g2, of edit_cfg fresh_tabs "[]"] s t by blast
  have 2: "loadPdf edit_cfg fresh_tabs broken_first None (mounted []) =
     loadPdf edit_cfg fresh_tabs (broken_first\<lparr>pages := [] @ [(good_page [''Hello''])\<lparr>getPage_ok := False\<rparr>]\<rparr>)
       None (mounted [])"
    using page_failures [OF g, of edit_cfg fresh_tabs "[]"] p b by fastforce
  have g3: "getDocument_ok broken_render" by (simp add: broken_render_def)
  have p3: "pages broken_render =
      [good_page [''Hello'']] @ (good_page [''Mid''])\<lparr>render_ok := False\<rparr> # [good_page [''Bye'']]"
    by (simp add: broken_render_def)
  have s3: "\<forall>src\<in>set [good_page [''Hello'']]. \<not> hardFailure src"
    by (simp add: hardFailure_def good_page_def)
  have b3: "hardFailure ((good_page [''Mid''])\<lparr>render_ok := False\<rparr>)"
    by (simp add: hardFailure_def good_page_def)
  from page_failures [OF g3, of edit_cfg fresh_tabs "[]"] p3 s3 b3
  have 3: "containerRef (loadPdf edit_cfg fresh_tabs broken_render None (mounted [])) =
      Some (map (\<lambda>x. \<lparr>page_no = fst x, editClass = isEditMode edit_cfg, rasterized = True,
                        spans = (if hasTextLayer broken_render \<and> textLayer_ok (snd x)
                                 then processSpans edit_cfg (currentTab fresh_tabs (tabId edit_cfg)) (fst x)
                                        (items (snd x)) (layer (snd x))
                                 else [])\<rparr>)
              (filter (\<lambda>x. context_ok (snd x))
                 (zip [1..<1 + length [good_page [''Hello'']]] [good_page [''Hello'']]))
            @ (if getPage_ok ((good_page [''Mid''])\<lparr>render_ok := False\<rparr>)
               then [\<lparr>page_no = 1 + length [good_page [''Hello'']], editClass = isEditMode edit_cfg,
                      rasterized = render_ok ((good_page [''Mid''])\<lparr>render_ok := False\<rparr>),
                      spans = []\<rparr>]
               else []))"
    by blast
  have 4: "map_option (map page_no) (containerRef (loadPdf edit_cfg fresh_tabs broken_render None (mounted []))) =
     Some [1, 2] \<and>
   map_option (map rasterized) (containerRef (loadPdf edit_cfg fresh_tabs broken_render None (mounted []))) =
     Some [True, False]"
    unfolding 3 by (simp add: good_page_def)
  from 1 2 4 show ?thesis by blast
qed

subsection \<open>Persisting and restoring\<close>

lemma editOf_saveEdit:
  "currentTab tabs tid \<noteq> None \<Longrightarrow> editOf (saveEdit tabs tid sid txt) tid sid = Some txt"
  by (induction tabs) (auto simp: currentTab_def saveEdit_def editOf_def)

lemma processSpan_border:
  "editOf tabs tid (spanId pageNum idx) = Some txt \<Longrightarrow> txt \<noteq> [] \<Longrightarrow>
   borderBottom (processSpan c (currentTab tabs tid) pageNum its idx s) = dashed"
  by (auto simp: processSpan_def Let_def applyFont_keeps restoreEdit_def editOf_def
      split: option.splits)

lemma nodes_fine:
  assumes "getDocument_ok pdf" and "hasTextLayer pdf"
    and "\<forall>src\<in>set (pages pdf). getPage_ok src \<and> context_ok src \<and> render_ok src \<and>
           getTextContent_ok src \<and> textLayer_ok src"
    and "containerRef (loadPdf c tabs pdf None (mounted old)) = Some nodes"
    and "p < length (pages pdf)"
  shows "spans (nodes ! p) =
           processSpans c (currentTab tabs (tabId c)) (p + 1) (items (pages pdf ! p)) (layer (pages pdf ! p))"
proof -
  let ?t = "currentTab tabs (tabId c)"
  let ?zs = "zip [1..<1 + length (pages pdf)] (pages pdf)"
  have soft: "\<forall>src\<in>set (pages pdf). \<not> hardFailure src"
    using assms(3) by (simp add: hardFailure_def)
  have m: "concat (map (\<lambda>x. fst (pageEffect c ?t pdf x)) zs) = map (\<lambda>x. nodeOf c ?t pdf (fst x) (snd x)) zs"
    if "\<forall>x\<in>set zs. context_ok (snd x)" for zs
    using that by (induction zs) (auto simp: pageEffect_def)
  have ctx: "\<forall>x\<in>set ?zs. context_ok (snd x)"
    using assms(3) by (auto dest: set_zip_rightD)
  have nodes: "nodes = map (\<lambda>x. nodeOf c ?t pdf (fst x) (snd x)) ?zs"
    using assms(4) unfolding loadPdf_soft [OF assms(1) soft] m [OF ctx] by simp
  have n: "[1..<1 + length (pages pdf)] ! p = 1 + p"
    by (rule nth_upt) (use assms(5) in simp)
  have l: "p < length [1..<1 + length (pages pdf)]"
    using assms(5) by (simp only: length_upt add_diff_cancel_left')
  have "?zs ! p = (1 + p, pages pdf ! p)"
    using n l assms(5) by (simp only: nth_zip)
  moreover have "p < length ?zs"
    using l assms(5) by (simp only: length_zip min_less_iff_conj)
  ultimately have "nodes ! p = nodeOf c ?t pdf (1 + p) (pages pdf ! p)"
    unfolding nodes by (simp only: nth_map fst_conv snd_conv)
  then show ?thesis
    using assms(2,3,5) by (simp add: nodeOf_def)
qed

text \<open>
  Claim C8, as the code has it. A document on which every step succeeds is rendered in
  edit mode, for a tab of the store. A fragment is activated, its text replaced by a text
  \<open>T\<close> that is not blank (not empty once trimmed), and deactivated. This persists
  \<open>T\<close> under the identifier of the fragment, and any later render of the document for
  this tab shows \<open>T\<close> on the same fragment, with the dashed border, under the same
  identifier.
\<close>

theorem edit_round_trip:
  assumes doc: "getDocument_ok pdf" "hasTextLayer pdf"
      "\<forall>src\<in>set (pages pdf). getPage_ok src \<and> context_ok src \<and> render_ok src \<and>
           getTextContent_ok src \<and> textLayer_ok src"
    and pos: "p < length (pages pdf)" "idx < length (layer (pages pdf ! p))"
    and first: "isEditMode c" "currentTab tabs (tabId c) \<noteq> None"
      "containerRef (loadPdf c tabs pdf None (mounted old)) = Some nodes"
    and nonblank: "trim T \<noteq> []"
    and commit: "blur (typeText T (click (spans (nodes ! p) ! idx))) tabs = (s', tabs')"
    and again: "tabId c' = tabId c"
      "containerRef (loadPdf c' tabs' pdf None (mounted old')) = Some nodes'"
  shows "editOf tabs' (tabId c) (frag_id (spans (nodes ! p) ! idx)) = Some T \<and>
         textContent (spans (nodes' ! p) ! idx) = T \<and>
         borderBottom (spans (nodes' ! p) ! idx) = dashed \<and>
         frag_id (spans (nodes' ! p) ! idx) = frag_id (spans (nodes ! p) ! idx)"
proof -
  let ?sid = "spanId (p + 1) idx"
  let ?src = "pages pdf ! p"
  let ?s = "spans (nodes ! p) ! idx"
  have s: "?s = processSpan c (currentTab tabs (tabId c)) (p + 1) (items ?src) idx (layer ?src ! idx)"
    unfolding nodes_fine [OF doc first(3) pos(1)] using pos(2) by (rule processSpans_nth)
  have fid: "frag_id ?s = ?sid"
    unfolding s by (rule processSpan_frag_id)
  have lis: "listeners ?s =
      Some \<lparr>cl_tabId = tabId c, cl_spanId = ?sid, cl_isDarkMode = isDarkMode c\<rparr>"
    unfolding s using first(1) by (simp add: processSpan_listeners)
  have T: "T \<noteq> []" using nonblank by (auto simp: trim_def)
  have typed: "textContent (typeText T (click ?s)) = T \<and>
      listeners (typeText T (click ?s)) =
        Some \<lparr>cl_tabId = tabId c, cl_spanId = ?sid, cl_isDarkMode = isDarkMode c\<rparr>"
    using lis by (simp add: typeText_def click_def)
  have "tabs' = saveEdit tabs (tabId c) ?sid T"
    using commit typed nonblank T by (simp add: blur_def Let_def)
  then have saved: "editOf tabs' (tabId c) ?sid = Some T"
    using first(2) by (simp add: editOf_saveEdit)
  let ?s' = "spans (nodes' ! p) ! idx"
  have s': "?s' = processSpan c' (currentTab tabs' (tabId c)) (p + 1) (items ?src) idx (layer ?src ! idx)"
    unfolding nodes_fine [OF doc again(2) pos(1)] again(1) using pos(2) by (rule processSpans_nth)
  have "textContent ?s' = T"
    unfolding s' using saved T by (simp add: processSpan_text)
  moreover have "borderBottom ?s' = dashed"
    unfolding s' using saved T by (rule processSpan_border)
  moreover have "frag_id ?s' = ?sid"
    unfolding s' by (rule processSpan_frag_id)
  ultimately show ?thesis
    using saved fid by simp
qed

theorem edit_round_trip_witness:
  "trim ''Salut'' \<noteq> [] \<and> editOf committed_tabs ''t1'' ''p1-s0'' = Some ''Salut'' \<and>
   textContent salut_span = ''Salut'' \<and> borderBottom salut_span = dashed"
proof -
  let ?nodes = "[\<lparr>page_no = 1, editClass = True, rasterized = True, spans = [hello_span]\<rparr>]"
  let ?nodes' = "[\<lparr>page_no = 1, editClass = False, rasterized = True, spans = [salut_span]\<rparr>]"
  have d1: "getDocument_ok one_page" and d2: "hasTextLayer one_page"
    and d3: "\<forall>src\<in>set (pages one_page). getPage_ok src \<and> context_ok src \<and> render_ok src \<and>
           getTextContent_ok src \<and> textLayer_ok src"
    and p1: "0 < length (pages one_page)" and p2: "0 < length (layer (pages one_page ! 0))"
    by (simp_all add: one_page_def good_page_def)
  have f1: "isEditMode edit_cfg" and f2: "currentTab fresh_tabs (tabId edit_cfg) \<noteq> None"
    and a1: "tabId read_cfg = tabId edit_cfg"
    by (simp_all add: edit_cfg_def read_cfg_def fresh_tabs_def currentTab_def)
  have f3: "containerRef (loadPdf edit_cfg fresh_tabs one_page None (mounted [])) = Some ?nodes"
    by code_simp
  have n: "trim ''Salut'' \<noteq> []"
    by (simp add: trim_def is_space_def)
  have c: "blur (typeText ''Salut'' (click (spans (?nodes ! 0) ! 0))) fresh_tabs =
             (fst (blur (typeText ''Salut'' (click hello_span)) fresh_tabs), committed_tabs)"
    by (simp add: committed_tabs_def)
  have a2: "containerRef (loadPdf read_cfg committed_tabs one_page None (mounted [])) = Some ?nodes'"
    by code_simp
  have i: "frag_id hello_span = ''p1-s0''"
    by code_simp
  have t: "tabId edit_cfg = ''t1''"
    by (simp add: edit_cfg_def)
  show ?thesis
    using edit_round_trip [OF d1 d2 d3 p1 p2 f1 f2 f3 n c a1 a2] n i t by simp
qed

text \<open>
  The text \<open>'' ''\<close> is not empty, yet committing it persists nothing, and the next
  render shows the original \<open>''Hello''\<close>.
\<close>

theorem blank_edit_counterexample:
  "'' '' \<noteq> [] \<and>
   containerRef (loadPdf edit_cfg fresh_tabs one_page None (mounted [])) =
     Some [\<lparr>page_no = 1, editClass = True, rasterized = True, spans = [hello_span]\<rparr>] \<and>
   textContent (typeText '' '' (click hello_span)) = '' '' \<and>
   editOf (snd (blur (typeText '' '' (click hello_span)) fresh_tabs)) ''t1'' ''p1-s0'' = None \<and>
   fragmentTexts (loadPdf read_cfg (snd (blur (typeText '' '' (click hello_span)) fresh_tabs))
      one_page None (mounted [])) = Some [[''Hello'']]"
  by code_simp

end
